theory Spec2Isabelle
  imports Complex_Main
begin

section \<open>The Lutron button classifier\<close>

text \<open>
  A shallow embedding of the class \<open>LutronButton\<close> of
  \<open>custom_components/lutron_custom/__init__.py\<close>: its constructor, the raw-event
  callback \<open>button_callback\<close>, the two timer closures it creates and \<open>button_action\<close>.

  The collaborators are modelled at their boundary. The calls received by
  \<open>hass.bus.fire\<close>, \<open>logbook.log_entry\<close> and \<open>_LOGGER.info\<close> are recorded in the
  world; whether \<open>fire\<close> or \<open>log_entry\<close> raises during one callback is an input of that
  callback. \<open>threading.Timer\<close> is modelled after the standard library: \<open>cancel\<close> sets the
  \<open>finished\<close> flag, and \<open>run\<close> waits, tests the flag once, and then calls the function.
  Every \<open>with self.lock\<close> block is one atomic transition; the test of the \<open>finished\<close> flag
  in \<open>Timer.run\<close> happens outside the lock and is a transition of its own.

  The function \<open>setup\<close> and the class \<open>LutronDevice\<close> of the module are not part of
  the embedding.
\<close>

subsection \<open>Data\<close>

type_synonym payload = "(string \<times> string) list"

text \<open>A reference to a \<open>Timer\<close> object: the object whose method allocated it, and the
  position in that object's allocation order.\<close>

type_synonym ref = "nat \<times> nat"

text \<open>\<open>pylutron.Button.Event\<close>; \<open>OTHER\<close> stands for any value that equals neither
  \<open>PRESSED\<close> nor \<open>RELEASED\<close>.\<close>

datatype Event = PRESSED | RELEASED | OTHER nat

record Keypad =
  keypad_name :: string

record Button =
  button_name :: string
  button_number :: int
  button_type :: "string option"

text \<open>The attributes of a \<open>LutronButton\<close> that are set once in \<open>__init__\<close>; \<open>oid\<close> is the
  identity of the object. The attribute \<open>timer\<close> is mutable and lives in the world.\<close>

record LutronButton =
  oid :: nat
  self_has_release_event :: bool
  self_id :: string
  self_area_name :: string
  self_button_name :: string
  self_event :: string
  self_full_id :: string

datatype exn = Exn string

text \<open>What the collaborators do during one callback: nothing raises, \<open>hass.bus.fire\<close>
  raises, or \<open>logbook.log_entry\<close> raises.\<close>

datatype sink = Healthy | FireFails exn | LogFails exn

datatype closure = Long_press_func LutronButton | Super_long_press_func LutronButton

text \<open>The thread of a \<open>Timer\<close>: not started; started at the given time and waiting in
  \<open>finished.wait(interval)\<close>; past the test \<open>if not self.finished.is_set()\<close> and about
  to call the function; gone.\<close>

datatype thread_state = Unstarted | Waiting rat | Checked | Exited

record Timer =
  interval :: rat
  timer_function :: closure
  finished :: bool
  pc :: thread_state

text \<open>The world: the time in seconds, the attribute \<open>timer\<close> of every \<open>LutronButton\<close>,
  the \<open>Timer\<close> objects allocated for every button, and the calls received so far by
  \<open>hass.bus.fire\<close> (event name and data), by \<open>logbook.log_entry\<close> (name, message and
  domain) and by \<open>_LOGGER.info\<close> (the two arguments of the format string).\<close>

record world =
  now :: rat
  timer :: "nat \<Rightarrow> ref option"
  heap :: "nat \<Rightarrow> Timer list"
  bus :: "(string \<times> payload) list"
  logbook :: "(string \<times> string \<times> string) list"
  logger :: "(string \<times> Event) list"

text \<open>Library functions the module calls and does not define: \<open>slugify\<close> of
  \<open>homeassistant.util\<close> and Python's \<open>repr\<close> of a string.\<close>

record lib =
  slugify :: "string \<Rightarrow> string"
  repr :: "string \<Rightarrow> string"

subsection \<open>Constants of the module\<close>

definition DOMAIN :: string where
  "DOMAIN = ''lutron_custom''"

definition ATTR_ACTION :: string where
  "ATTR_ACTION = ''action''"

definition ATTR_FULL_ID :: string where
  "ATTR_FULL_ID = ''full_id''"

text \<open>Modelled from the spec: \<open>ATTR_ID\<close> is imported from \<open>homeassistant.const\<close>; the spec
  names the payload key \<open>id\<close>.\<close>

definition ATTR_ID :: string where
  "ATTR_ID = ''id''"

subsection \<open>Strings\<close>

text \<open>Python's \<open>p in s\<close> on strings.\<close>

fun str_in :: "string \<Rightarrow> string \<Rightarrow> bool" where
  "str_in p [] = (p = [])"
| "str_in p (c # cs) = (take (length p) (c # cs) = p \<or> str_in p cs)"

definition digit :: "nat \<Rightarrow> char" where
  "digit d = char_of (48 + d)"

fun str_nat :: "nat \<Rightarrow> string" where
  "str_nat n = (if n < 10 then [digit n] else str_nat (n div 10) @ [digit (n mod 10)])"

declare str_nat.simps [simp del]

definition str_int :: "int \<Rightarrow> string" where
  "str_int i = (if i < 0 then CHR ''-'' # str_nat (nat (- i)) else str_nat (nat i))"

fun join :: "string \<Rightarrow> string list \<Rightarrow> string" where
  "join sep [] = []"
| "join sep [x] = x"
| "join sep (x # y # ys) = x @ sep @ join sep (y # ys)"

text \<open>\<open>str(data)\<close> for a dict of strings.\<close>

definition str_dict :: "lib \<Rightarrow> payload \<Rightarrow> string" where
  "str_dict L d = ''{'' @ join '', '' (map (\<lambda>(k, v). repr L k @ '': '' @ repr L v) d) @ ''}''"

subsection \<open>threading.Timer\<close>

text \<open>The world at integration start: no button has a timer and nothing was emitted.\<close>

definition world0 :: world where
  "world0 = \<lparr>now = 0, timer = (\<lambda>_. None), heap = (\<lambda>_. []), bus = [], logbook = [], logger = []\<rparr>"

text \<open>\<open>Timer(interval, function)\<close>, allocated by a method of object \<open>ob\<close>. The thread is
  not started yet.\<close>

definition new_Timer :: "nat \<Rightarrow> rat \<Rightarrow> closure \<Rightarrow> world \<Rightarrow> ref \<times> world" where
  "new_Timer ob iv f w =
     ((ob, length (heap w ob)),
      w\<lparr>heap := (heap w)(ob := heap w ob @
          [\<lparr>interval = iv, timer_function = f, finished = False, pc = Unstarted\<rparr>])\<rparr>)"

text \<open>An update of the \<open>Timer\<close> object behind a reference; a reference to no object
  changes nothing.\<close>

definition upd_Timer :: "ref \<Rightarrow> (Timer \<Rightarrow> Timer) \<Rightarrow> world \<Rightarrow> world" where
  "upd_Timer r f w =
     (if snd r < length (heap w (fst r))
      then w\<lparr>heap := (heap w)(fst r := (heap w (fst r))[snd r := f (heap w (fst r) ! snd r)])\<rparr>
      else w)"

text \<open>\<open>Timer.start()\<close> starts the thread, which enters \<open>finished.wait(interval)\<close>;
  \<open>Timer.cancel()\<close> is \<open>self.finished.set()\<close>.\<close>

definition start :: "ref \<Rightarrow> world \<Rightarrow> world" where
  "start r w = upd_Timer r (\<lambda>t. t\<lparr>pc := Waiting (now w)\<rparr>) w"

definition cancel :: "ref \<Rightarrow> world \<Rightarrow> world" where
  "cancel r w = upd_Timer r (\<lambda>t. t\<lparr>finished := True\<rparr>) w"

subsection \<open>LutronButton\<close>

text \<open>\<open>LutronButton.__init__\<close>. The object gets the identity \<open>ob\<close>. The last statement,
  \<open>button.subscribe(self.button_callback, None)\<close>, makes the raw events of the button
  arrive at \<open>button_callback\<close>: they are the \<open>Raw\<close> steps of a schedule. The attributes
  \<open>_hass\<close>, \<open>_keypad\<close> and \<open>_button\<close> hold references to the collaborators; \<open>lock\<close> is
  the lock whose blocks are the atomic transitions.\<close>

definition LutronButton_init ::
  "lib \<Rightarrow> nat \<Rightarrow> string \<Rightarrow> Keypad \<Rightarrow> Button \<Rightarrow> world \<Rightarrow> LutronButton \<times> world" where
  "LutronButton_init L ob area_name keypad button w =
     (let name = keypad_name keypad @ '': '' @ button_name button;
          name = (if button_name button = ''Unknown Button''
                  then name @ '' '' @ str_int (button_number button) else name)
      in (\<lparr>oid = ob,
           self_has_release_event =
             (case button_type button of None \<Rightarrow> False
              | Some ty \<Rightarrow> str_in ''RaiseLower'' ty),
           self_id = slugify L name,
           self_area_name = area_name,
           self_button_name = button_name button,
           self_event = ''lutron_event'',
           self_full_id = slugify L (area_name @ '' '' @ name)\<rparr>,
          w\<lparr>timer := (timer w)(ob := None)\<rparr>))"

text \<open>\<open>button_action\<close>: the dict \<open>data\<close>, the call \<open>self._hass.bus.fire(self._event, data)\<close>
  and the call \<open>logbook.log_entry(self._hass, action, str(data), DOMAIN)\<close>. An exception of
  the first call leaves the method before the second call is made.\<close>

definition data_of :: "LutronButton \<Rightarrow> string \<Rightarrow> payload" where
  "data_of self action =
     [(ATTR_ID, self_id self),
      (ATTR_ACTION, action),
      (ATTR_FULL_ID, self_full_id self),
      (''area_name'', self_area_name self),
      (''button_name'', self_button_name self)]"

definition button_action ::
  "lib \<Rightarrow> LutronButton \<Rightarrow> string \<Rightarrow> sink \<Rightarrow> world \<Rightarrow> exn option \<times> world" where
  "button_action L self action k w =
     (let data = data_of self action;
          w1 = w\<lparr>bus := bus w @ [(self_event self, data)]\<rparr>
      in case k of
           FireFails e \<Rightarrow> (Some e, w1)
         | _ \<Rightarrow>
             (let w2 = w1\<lparr>logbook := logbook w1 @ [(action, str_dict L data, DOMAIN)]\<rparr>
              in case k of LogFails e \<Rightarrow> (Some e, w2) | _ \<Rightarrow> (None, w2)))"

text \<open>The closures \<open>super_long_press_func\<close> and \<open>long_press_func\<close> that a press creates;
  each body is one \<open>with self.lock\<close> block.\<close>

definition super_long_press_func ::
  "lib \<Rightarrow> LutronButton \<Rightarrow> sink \<Rightarrow> world \<Rightarrow> exn option \<times> world" where
  "super_long_press_func L self k w =
     button_action L self ''super_long_pressed'' k (w\<lparr>timer := (timer w)(oid self := None)\<rparr>)"

definition long_press_func ::
  "lib \<Rightarrow> LutronButton \<Rightarrow> sink \<Rightarrow> world \<Rightarrow> exn option \<times> world" where
  "long_press_func L self k w =
     (case button_action L self ''long_pressed'' k w of
        (Some e, w1) \<Rightarrow> (Some e, w1)
      | (None, w1) \<Rightarrow>
          (let (r, w2) = new_Timer (oid self) 1 (Super_long_press_func self) w1;
               w3 = w2\<lparr>timer := (timer w2)(oid self := Some r)\<rparr>
           in (None, start r w3)))"

text \<open>\<open>button_callback\<close>: the call of \<open>_LOGGER.info\<close>, then, under the lock, the
  cancellation of the timer in the slot, and the two \<open>if\<close> statements on the event.\<close>

definition button_callback ::
  "lib \<Rightarrow> LutronButton \<Rightarrow> Event \<Rightarrow> sink \<Rightarrow> world \<Rightarrow> exn option \<times> world" where
  "button_callback L self event k w =
     (let w0 = w\<lparr>logger := logger w @ [(self_full_id self, event)]\<rparr>;
          w1 = (case timer w0 (oid self) of
                  Some r \<Rightarrow> (cancel r w0)\<lparr>timer := (timer w0)(oid self := None)\<rparr>
                | None \<Rightarrow> w0);
          (x, w2) =
            (if event = PRESSED then
               (case button_action L self ''pressed'' k w1 of
                  (Some e, w') \<Rightarrow> (Some e, w')
                | (None, w') \<Rightarrow>
                    (let (r, w'') = new_Timer (oid self) (1 / 2) (Long_press_func self) w';
                         w''' = w''\<lparr>timer := (timer w'')(oid self := Some r)\<rparr>
                     in (None, start r w''')))
             else (None, w1))
      in case x of
           Some e \<Rightarrow> (Some e, w2)
         | None \<Rightarrow>
             (if event = RELEASED then button_action L self ''released'' k w2
              else (None, w2)))"

subsection \<open>Threads and schedules\<close>

definition call :: "lib \<Rightarrow> closure \<Rightarrow> sink \<Rightarrow> world \<Rightarrow> exn option \<times> world" where
  "call L f k w =
     (case f of
        Long_press_func self \<Rightarrow> long_press_func L self k w
      | Super_long_press_func self \<Rightarrow> super_long_press_func L self k w)"

text \<open>One step of the thread of timer \<open>r\<close>, following \<open>Timer.run\<close>: a waiting thread whose
  flag is set leaves without calling the function; a waiting thread whose interval has
  elapsed passes the test of the flag; a thread that passed the test calls the function
  and sets the flag when the function returns.\<close>

definition Timer_run :: "lib \<Rightarrow> ref \<Rightarrow> sink \<Rightarrow> world \<Rightarrow> exn option \<times> world" where
  "Timer_run L r k w =
     (if snd r < length (heap w (fst r)) then
        (let t = heap w (fst r) ! snd r in
         case pc t of
           Unstarted \<Rightarrow> (None, w)
         | Waiting t0 \<Rightarrow>
             (if finished t then (None, upd_Timer r (\<lambda>t. t\<lparr>pc := Exited\<rparr>) w)
              else if t0 + interval t \<le> now w
                then (None, upd_Timer r (\<lambda>t. t\<lparr>pc := Checked\<rparr>) w)
              else (None, w))
         | Checked \<Rightarrow>
             (case call L (timer_function t) k w of
                (Some e, w1) \<Rightarrow> (Some e, upd_Timer r (\<lambda>t. t\<lparr>pc := Exited\<rparr>) w1)
              | (None, w1) \<Rightarrow>
                  (None, upd_Timer r (\<lambda>t. t\<lparr>finished := True, pc := Exited\<rparr>) w1))
         | Exited \<Rightarrow> (None, w))
      else (None, w))"

text \<open>The steps of a schedule: the controller delivers a raw event to the callback of a
  button; the thread of a timer takes its next step; time passes (a negative delay counts
  as none). The exception that leaves a step goes to the caller of the callback or to the
  timer thread; the world goes on.\<close>

datatype action = Raw LutronButton Event sink | Tick ref sink | Advance rat

definition step :: "lib \<Rightarrow> action \<Rightarrow> world \<Rightarrow> exn option \<times> world" where
  "step L a w =
     (case a of
        Raw self event k \<Rightarrow> button_callback L self event k w
      | Tick r k \<Rightarrow> Timer_run L r k w
      | Advance d \<Rightarrow> (None, w\<lparr>now := now w + max 0 d\<rparr>))"

fun run :: "lib \<Rightarrow> action list \<Rightarrow> world \<Rightarrow> world" where
  "run L [] w = w"
| "run L (a # as) w = run L as (snd (step L a w))"

text \<open>The calls of \<open>hass.bus.fire\<close> made by the steps of a schedule that satisfy \<open>P\<close>.\<close>

fun emitted :: "lib \<Rightarrow> (action \<Rightarrow> bool) \<Rightarrow> action list \<Rightarrow> world \<Rightarrow> (string \<times> payload) list" where
  "emitted L P [] w = []"
| "emitted L P (a # as) w =
     (let w' = snd (step L a w)
      in (if P a then drop (length (bus w)) (bus w') else []) @ emitted L P as w')"

definition action_of :: "string \<times> payload \<Rightarrow> string" where
  "action_of c = (case map_of (snd c) ATTR_ACTION of Some a \<Rightarrow> a | None \<Rightarrow> [])"

definition actions :: "world \<Rightarrow> string list" where
  "actions w = map action_of (bus w)"

subsection \<open>Notions used by the properties\<close>

text \<open>The exception that reaches a caller when the collaborators behave as \<open>k\<close>.\<close>

definition raises :: "sink \<Rightarrow> exn option" where
  "raises k = (case k of Healthy \<Rightarrow> None | FireFails e \<Rightarrow> Some e | LogFails e \<Rightarrow> Some e)"

text \<open>A timer is pending while its function may still be called: its thread waits and
  the flag is not set, or its thread has passed the test of the flag.\<close>

definition pending :: "Timer \<Rightarrow> bool" where
  "pending t = (case pc t of Waiting t0 \<Rightarrow> \<not> finished t | Checked \<Rightarrow> True | _ \<Rightarrow> False)"

definition pending_refs :: "world \<Rightarrow> nat \<Rightarrow> nat list" where
  "pending_refs w ob = filter (\<lambda>n. pending (heap w ob ! n)) [0..<length (heap w ob)]"

definition is_Tick_of :: "ref \<Rightarrow> action \<Rightarrow> bool" where
  "is_Tick_of r a = (case a of Tick r' k \<Rightarrow> r' = r | _ \<Rightarrow> False)"

text \<open>Steps that are not raw input: timer threads and the passing of time.\<close>

definition quiet :: "action \<Rightarrow> bool" where
  "quiet a = (case a of Raw self event k \<Rightarrow> False | _ \<Rightarrow> True)"

text \<open>The steps a button takes part in: its callback, the threads of its timers, and
  the passing of time.\<close>

definition concerns :: "nat \<Rightarrow> action \<Rightarrow> bool" where
  "concerns ob a =
     (case a of Raw self event k \<Rightarrow> oid self = ob | Tick r k \<Rightarrow> fst r = ob | Advance d \<Rightarrow> True)"

definition view :: "nat \<Rightarrow> world \<Rightarrow> rat \<times> ref option \<times> Timer list" where
  "view ob w = (now w, timer w ob, heap w ob)"

text \<open>A schedule is free of races when no raw event of a button is processed while a
  timer thread of that button stands between its test of the flag and its function.\<close>

fun race_free :: "lib \<Rightarrow> action list \<Rightarrow> world \<Rightarrow> bool" where
  "race_free L [] w = True"
| "race_free L (a # as) w =
     ((case a of
         Raw self event k \<Rightarrow> list_all (\<lambda>t. pc t \<noteq> Checked) (heap w (oid self))
       | _ \<Rightarrow> True)
      \<and> race_free L as (snd (step L a w)))"

fun raw_selfs :: "action list \<Rightarrow> LutronButton list" where
  "raw_selfs [] = []"
| "raw_selfs (a # as) = (case a of Raw self event k \<Rightarrow> [self] | _ \<Rightarrow> []) @ raw_selfs as"

definition fire_fails :: "action \<Rightarrow> bool" where
  "fire_fails a =
     (case a of Raw self event (FireFails e) \<Rightarrow> True | Tick r (FireFails e) \<Rightarrow> True | _ \<Rightarrow> False)"

definition entry_of :: "lib \<Rightarrow> string \<times> payload \<Rightarrow> string \<times> string \<times> string" where
  "entry_of L c = (action_of c, str_dict L (snd c), DOMAIN)"

fun closure_self :: "closure \<Rightarrow> LutronButton" where
  "closure_self (Long_press_func self) = self"
| "closure_self (Super_long_press_func self) = self"

text \<open>Invariants of the reachable worlds: a button's slot refers to a timer that the
  button allocated, and the closure of a timer belongs to the button that allocated it;
  every pending timer of a button is the one in its slot; no timer is pending.\<close>

definition owned :: "world \<Rightarrow> bool" where
  "owned w =
     ((\<forall>ob r. timer w ob = Some r \<longrightarrow> fst r = ob \<and> snd r < length (heap w ob)) \<and>
      (\<forall>ob n. n < length (heap w ob) \<longrightarrow>
         oid (closure_self (timer_function (heap w ob ! n))) = ob))"

definition single :: "world \<Rightarrow> bool" where
  "single w =
     (\<forall>ob n. n < length (heap w ob) \<longrightarrow> pending (heap w ob ! n) \<longrightarrow> timer w ob = Some (ob, n))"

definition idle :: "world \<Rightarrow> bool" where
  "idle w = (\<forall>ob n. n < length (heap w ob) \<longrightarrow> \<not> pending (heap w ob ! n))"

text \<open>Every call of the bus was made by \<open>button_action\<close> for a button of \<open>S\<close>, and every
  closure belongs to a button of \<open>S\<close>; the log book has one entry for each call of the bus.\<close>

definition shaped :: "LutronButton set \<Rightarrow> world \<Rightarrow> bool" where
  "shaped S w =
     ((\<forall>c \<in> set (bus w). \<exists>s \<in> S. \<exists>a. c = (self_event s, data_of s a)) \<and>
      (\<forall>ob n. n < length (heap w ob) \<longrightarrow>
         closure_self (timer_function (heap w ob ! n)) \<in> S))"

definition logged :: "lib \<Rightarrow> world \<Rightarrow> bool" where
  "logged L w = (logbook w = map (entry_of L) (bus w))"

definition dead :: "world \<Rightarrow> ref \<Rightarrow> bool" where
  "dead w r =
     (snd r < length (heap w (fst r)) \<and>
      (pc (heap w (fst r) ! snd r) = Exited \<or>
       (finished (heap w (fst r) ! snd r) \<and> pc (heap w (fst r) ! snd r) \<noteq> Checked)))"

text \<open>The world in which only the button \<open>self\<close> has acted, with collaborators that
  never raised: the time, the button's slot, its timers, the actions it emitted and the
  raw events it received.\<close>

definition solo ::
  "lib \<Rightarrow> LutronButton \<Rightarrow> rat \<Rightarrow> ref option \<Rightarrow> Timer list \<Rightarrow> string list \<Rightarrow> Event list \<Rightarrow> world" where
  "solo L self t sl ts acts evs =
     \<lparr>now = t,
      timer = (\<lambda>_. None)(oid self := sl),
      heap = (\<lambda>_. [])(oid self := ts),
      bus = map (\<lambda>a. (self_event self, data_of self a)) acts,
      logbook = map (\<lambda>a. (a, str_dict L (data_of self a), DOMAIN)) acts,
      logger = map (\<lambda>e. (self_full_id self, e)) evs\<rparr>"

subsection \<open>Example inputs\<close>

definition example_lib :: lib where
  "example_lib = \<lparr>slugify = (\<lambda>s. s), repr = (\<lambda>s. s)\<rparr>"

definition toggle_button :: LutronButton where
  "toggle_button =
     fst (LutronButton_init example_lib 0 ''Hall'' \<lparr>keypad_name = ''Door''\<rparr>
       \<lparr>button_name = ''Top'', button_number = 1, button_type = Some ''Toggle''\<rparr> world0)"

definition raise_button :: LutronButton where
  "raise_button =
     fst (LutronButton_init example_lib 1 ''Hall'' \<lparr>keypad_name = ''Door''\<rparr>
       \<lparr>button_name = ''Raise'', button_number = 2,
        button_type = Some ''SingleSceneRaiseLower''\<rparr> world0)"

section \<open>Basic facts\<close>

lemma upd_Timer_eq:
  "upd_Timer r f w =
     w\<lparr>heap := (heap w)(fst r := (heap w (fst r))[snd r := f (heap w (fst r) ! snd r)])\<rparr>"
  by (simp add: upd_Timer_def list_update_beyond not_less)

lemmas prim_defs = upd_Timer_eq start_def cancel_def new_Timer_def

lemma button_action_eq:
  "button_action L self a k w =
     (raises k,
      w\<lparr>bus := bus w @ [(self_event self, data_of self a)],
        logbook := logbook w @
          (case k of FireFails e \<Rightarrow> [] | _ \<Rightarrow> [(a, str_dict L (data_of self a), DOMAIN)])\<rparr>)"
  by (cases k) (simp_all add: button_action_def raises_def Let_def)

lemma action_of_data [simp]: "action_of (ev, data_of self a) = a"
  by (simp add: action_of_def data_of_def ATTR_ID_def ATTR_ACTION_def)

lemma run_append: "run L (xs @ ys) w = run L ys (run L xs w)"
  by (induction xs arbitrary: w) simp_all

lemma toggle_button_eq:
  "toggle_button =
     \<lparr>oid = 0, self_has_release_event = False, self_id = ''Door: Top'',
      self_area_name = ''Hall'', self_button_name = ''Top'', self_event = ''lutron_event'',
      self_full_id = ''Hall Door: Top''\<rparr>"
  by (simp add: toggle_button_def LutronButton_init_def example_lib_def Let_def)

lemma raise_button_eq:
  "raise_button =
     \<lparr>oid = 1, self_has_release_event = True, self_id = ''Door: Raise'',
      self_area_name = ''Hall'', self_button_name = ''Raise'', self_event = ''lutron_event'',
      self_full_id = ''Hall Door: Raise''\<rparr>"
  by (simp add: raise_button_def LutronButton_init_def example_lib_def Let_def)

subsection \<open>Steps of a single button\<close>

lemma solo_world0: "world0 = solo L self 0 None [] [] []"
  by (simp add: world0_def solo_def fun_eq_iff)

lemma solo_fields [simp]:
  "now (solo L self t sl ts acts evs) = t"
  "timer (solo L self t sl ts acts evs) (oid self) = sl"
  "heap (solo L self t sl ts acts evs) (oid self) = ts"
  "actions (solo L self t sl ts acts evs) = acts"
  "bus (solo L self t sl ts acts evs) = map (\<lambda>a. (self_event self, data_of self a)) acts"
  by (simp_all add: solo_def actions_def comp_def)

lemma solo_press:
  "snd (step L (Raw self PRESSED Healthy) (solo L self t sl ts acts evs)) =
     solo L self t (Some (oid self, length ts))
       ((case sl of
           None \<Rightarrow> ts
         | Some r \<Rightarrow> if fst r = oid self then ts[snd r := (ts ! snd r)\<lparr>finished := True\<rparr>] else ts)
        @ [\<lparr>interval = 1 / 2, timer_function = Long_press_func self, finished = False,
            pc = Waiting t\<rparr>])
       (acts @ [''pressed'']) (evs @ [PRESSED])"
  by (auto simp: step_def button_callback_def button_action_eq raises_def cancel_def start_def
      new_Timer_def upd_Timer_def solo_def Let_def list_update_beyond fun_eq_iff
      split: option.splits)

lemma solo_release:
  "snd (step L (Raw self RELEASED Healthy) (solo L self t sl ts acts evs)) =
     solo L self t None
       (case sl of
           None \<Rightarrow> ts
         | Some r \<Rightarrow> if fst r = oid self then ts[snd r := (ts ! snd r)\<lparr>finished := True\<rparr>] else ts)
       (acts @ [''released'']) (evs @ [RELEASED])"
  by (auto simp: step_def button_callback_def button_action_eq raises_def cancel_def
      upd_Timer_def solo_def Let_def list_update_beyond fun_eq_iff split: option.splits)

lemma solo_other:
  "snd (step L (Raw self (OTHER n) k) (solo L self t sl ts acts evs)) =
     solo L self t None
       (case sl of
           None \<Rightarrow> ts
         | Some r \<Rightarrow> if fst r = oid self then ts[snd r := (ts ! snd r)\<lparr>finished := True\<rparr>] else ts)
       acts (evs @ [OTHER n])"
  by (auto simp: step_def button_callback_def cancel_def
      upd_Timer_def solo_def Let_def list_update_beyond fun_eq_iff split: option.splits)

lemma solo_advance:
  "snd (step L (Advance d) (solo L self t sl ts acts evs)) =
     solo L self (t + max 0 d) sl ts acts evs"
  by (simp add: step_def solo_def)

lemma solo_tick_early:
  assumes "n < length ts" "pc (ts ! n) = Waiting t0" "\<not> finished (ts ! n)"
    "\<not> t0 + interval (ts ! n) \<le> t"
  shows "snd (step L (Tick (oid self, n) k) (solo L self t sl ts acts evs)) =
           solo L self t sl ts acts evs"
  using assms by (simp add: step_def Timer_run_def solo_def)

lemma solo_tick_due:
  assumes "n < length ts" "pc (ts ! n) = Waiting t0" "\<not> finished (ts ! n)"
    "t0 + interval (ts ! n) \<le> t"
  shows "snd (step L (Tick (oid self, n) k) (solo L self t sl ts acts evs)) =
           solo L self t sl (ts[n := (ts ! n)\<lparr>pc := Checked\<rparr>]) acts evs"
  using assms by (simp add: step_def Timer_run_def solo_def upd_Timer_def)

lemma solo_tick_cancelled:
  assumes "n < length ts" "pc (ts ! n) = Waiting t0" "finished (ts ! n)"
  shows "snd (step L (Tick (oid self, n) k) (solo L self t sl ts acts evs)) =
           solo L self t sl (ts[n := (ts ! n)\<lparr>pc := Exited\<rparr>]) acts evs"
  using assms by (simp add: step_def Timer_run_def solo_def upd_Timer_def)

lemma solo_tick_long:
  assumes "n < length ts" "pc (ts ! n) = Checked"
    "timer_function (ts ! n) = Long_press_func self"
  shows "snd (step L (Tick (oid self, n) Healthy) (solo L self t sl ts acts evs)) =
           solo L self t (Some (oid self, length ts))
             (ts[n := (ts ! n)\<lparr>finished := True, pc := Exited\<rparr>] @
              [\<lparr>interval = 1, timer_function = Super_long_press_func self, finished = False,
                pc = Waiting t\<rparr>])
             (acts @ [''long_pressed'']) evs"
  using assms
  by (simp add: step_def Timer_run_def call_def long_press_func_def button_action_eq raises_def
      start_def new_Timer_def upd_Timer_def solo_def nth_append list_update_append)

lemma solo_tick_super:
  assumes "n < length ts" "pc (ts ! n) = Checked"
    "timer_function (ts ! n) = Super_long_press_func self"
  shows "snd (step L (Tick (oid self, n) Healthy) (solo L self t sl ts acts evs)) =
           solo L self t None (ts[n := (ts ! n)\<lparr>finished := True, pc := Exited\<rparr>])
             (acts @ [''super_long_pressed'']) evs"
  using assms
  by (simp add: step_def Timer_run_def call_def super_long_press_func_def button_action_eq
      raises_def upd_Timer_def solo_def)

lemmas solo_steps = solo_press solo_release solo_other solo_advance solo_tick_early
  solo_tick_due solo_tick_cancelled solo_tick_long solo_tick_super

section \<open>How the heap of timers evolves\<close>

lemma upd_Timer_fields [simp]:
  "now (upd_Timer r f w) = now w"
  "timer (upd_Timer r f w) = timer w"
  "bus (upd_Timer r f w) = bus w"
  "logbook (upd_Timer r f w) = logbook w"
  "logger (upd_Timer r f w) = logger w"
  "length (heap (upd_Timer r f w) ob) = length (heap w ob)"
  by (simp_all add: upd_Timer_def)

lemma upd_Timer_nth:
  "heap (upd_Timer r f w) ob ! n =
     (if ob = fst r \<and> n = snd r \<and> n < length (heap w ob) then f (heap w ob ! n)
      else heap w ob ! n)"
  by (auto simp: upd_Timer_def nth_list_update)

lemma call_bus:
  "bus (snd (call L f k w)) =
     bus w @ [(self_event (closure_self f),
               data_of (closure_self f)
                 (case f of Long_press_func s \<Rightarrow> ''long_pressed''
                  | Super_long_press_func s \<Rightarrow> ''super_long_pressed''))]"
  by (cases f; cases k)
    (simp_all add: call_def long_press_func_def super_long_press_func_def button_action_eq
      raises_def start_def new_Timer_def)

lemma call_length: "length (heap w ob) \<le> length (heap (snd (call L f k w)) ob)"
  by (cases f; cases k)
    (simp_all add: call_def long_press_func_def super_long_press_func_def button_action_eq
      raises_def start_def new_Timer_def)

lemma call_nth:
  "n < length (heap w ob) \<Longrightarrow> heap (snd (call L f k w)) ob ! n = heap w ob ! n"
  by (cases f; cases k)
    (auto simp: call_def long_press_func_def super_long_press_func_def button_action_eq
      raises_def start_def new_Timer_def upd_Timer_nth nth_append)

lemma call_fst: "fst (call L f k w) = raises k"
  by (cases f; cases k)
    (simp_all add: call_def long_press_func_def super_long_press_func_def button_action_eq
      raises_def start_def new_Timer_def)

lemma Timer_run_snd:
  "snd (Timer_run L r k w) =
     (if snd r < length (heap w (fst r)) then
        (case pc (heap w (fst r) ! snd r) of
           Unstarted \<Rightarrow> w
         | Waiting t0 \<Rightarrow>
             (if finished (heap w (fst r) ! snd r) then upd_Timer r (\<lambda>t. t\<lparr>pc := Exited\<rparr>) w
              else if t0 + interval (heap w (fst r) ! snd r) \<le> now w
                then upd_Timer r (\<lambda>t. t\<lparr>pc := Checked\<rparr>) w
              else w)
         | Checked \<Rightarrow>
             upd_Timer r
               (\<lambda>t. if k = Healthy then t\<lparr>finished := True, pc := Exited\<rparr>
                    else t\<lparr>pc := Exited\<rparr>)
               (snd (call L (timer_function (heap w (fst r) ! snd r)) k w))
         | Exited \<Rightarrow> w)
      else w)"
proof (cases "snd r < length (heap w (fst r))")
  case False
  then show ?thesis by (simp add: Timer_run_def)
next
  case True
  show ?thesis
  proof (cases "pc (heap w (fst r) ! snd r)")
    case Checked
    obtain x w1 where c: "call L (timer_function (heap w (fst r) ! snd r)) k w = (x, w1)"
      by (cases "call L (timer_function (heap w (fst r) ! snd r)) k w")
    have "x = raises k"
      using call_fst [of L "timer_function (heap w (fst r) ! snd r)" k w] c by simp
    with True Checked c show ?thesis
      by (cases k) (simp_all add: Timer_run_def raises_def)
  qed (use True in \<open>simp_all add: Timer_run_def\<close>)
qed

lemma callback_length:
  "length (heap w ob) \<le> length (heap (snd (button_callback L self event k w)) ob)"
  by (cases k)
    (simp_all add: button_callback_def button_action_eq raises_def cancel_def start_def
      new_Timer_def Let_def split: option.splits)

lemma callback_heap:
  "heap (snd (button_callback L self event k w)) =
     (let h = (case timer w (oid self) of None \<Rightarrow> heap w | Some r \<Rightarrow> heap (cancel r w))
      in if event = PRESSED \<and> k = Healthy
         then h(oid self := h (oid self) @
                [\<lparr>interval = 1 / 2, timer_function = Long_press_func self, finished = False,
                  pc = Waiting (now w)\<rparr>])
         else h)"
  by (cases k; cases "timer w (oid self)")
    (simp_all add: button_callback_def button_action_eq raises_def cancel_def start_def
      new_Timer_def upd_Timer_eq Let_def)

lemma callback_timer:
  "timer (snd (button_callback L self event k w)) =
     (timer w)(oid self :=
        if event = PRESSED \<and> k = Healthy then Some (oid self, length (heap w (oid self)))
        else None)"
  by (cases k; cases "timer w (oid self)")
    (simp_all add: button_callback_def button_action_eq raises_def cancel_def start_def
      new_Timer_def Let_def fun_upd_idem)

lemma callback_now [simp]: "now (snd (button_callback L self event k w)) = now w"
  by (cases k; cases "timer w (oid self)")
    (simp_all add: button_callback_def button_action_eq raises_def cancel_def start_def
      new_Timer_def Let_def)

lemma callback_bus:
  "bus (snd (button_callback L self event k w)) =
     bus w @ (if event = PRESSED then [(self_event self, data_of self ''pressed'')]
              else if event = RELEASED then [(self_event self, data_of self ''released'')]
              else [])"
  by (cases k; cases "timer w (oid self)")
    (simp_all add: button_callback_def button_action_eq raises_def cancel_def start_def
      new_Timer_def Let_def)

lemma callback_fst:
  "fst (button_callback L self event k w) =
     (if event = PRESSED \<or> event = RELEASED then raises k else None)"
  by (cases k; cases "timer w (oid self)")
    (simp_all add: button_callback_def button_action_eq raises_def cancel_def start_def
      new_Timer_def Let_def)

lemma cancel_nth:
  "heap (cancel r w) ob ! n =
     (if r = (ob, n) \<and> n < length (heap w ob) then (heap w ob ! n)\<lparr>finished := True\<rparr>
      else heap w ob ! n)"
  by (cases r) (auto simp: cancel_def upd_Timer_nth)

lemma cancel_length [simp]: "length (heap (cancel r w) ob) = length (heap w ob)"
  by (simp add: cancel_def)

lemma callback_nth:
  assumes "n < length (heap w ob)"
  shows "heap (snd (button_callback L self event k w)) ob ! n =
     (if timer w (oid self) = Some (ob, n) then (heap w ob ! n)\<lparr>finished := True\<rparr>
      else heap w ob ! n)"
proof -
  define h where
    "h = (case timer w (oid self) of None \<Rightarrow> heap w | Some r \<Rightarrow> heap (cancel r w))"
  have len: "length (h ob) = length (heap w ob)"
    by (simp add: h_def split: option.splits)
  have nth: "h ob ! n =
     (if timer w (oid self) = Some (ob, n) then (heap w ob ! n)\<lparr>finished := True\<rparr>
      else heap w ob ! n)"
    using assms by (simp add: h_def cancel_nth split: option.splits)
  have "heap (snd (button_callback L self event k w)) =
     (if event = PRESSED \<and> k = Healthy
      then h(oid self := h (oid self) @
             [\<lparr>interval = 1 / 2, timer_function = Long_press_func self, finished = False,
               pc = Waiting (now w)\<rparr>])
      else h)"
    by (simp add: callback_heap h_def Let_def)
  then have "heap (snd (button_callback L self event k w)) ob ! n = h ob ! n"
    using assms len by (cases "ob = oid self") (simp_all add: nth_append)
  with nth show ?thesis by simp
qed

subsection \<open>Timers that can no longer act\<close>

lemma dead_callback: "dead w r \<Longrightarrow> dead (snd (button_callback L self event k w)) r"
  using callback_length [of w "fst r" L self event k]
  by (auto simp: dead_def callback_nth)

lemma dead_Timer_run:
  assumes "dead w r"
  shows "dead (snd (Timer_run L r' k w)) r"
proof -
  have "snd r < length (heap (snd (call L f k w)) (fst r))" for f
    using assms call_length [of w "fst r" L f k] by (simp add: dead_def)
  with assms show ?thesis
    by (auto simp: dead_def Timer_run_snd upd_Timer_nth call_nth split: thread_state.splits)
qed

lemma dead_step: "dead w r \<Longrightarrow> dead (snd (step L a w)) r"
  by (cases a) (simp_all add: step_def dead_callback dead_Timer_run, simp add: dead_def)

lemma dead_silent:
  "dead w r \<Longrightarrow> is_Tick_of r a \<Longrightarrow> bus (snd (step L a w)) = bus w"
  by (cases a)
    (auto simp: is_Tick_of_def step_def dead_def Timer_run_def Let_def
      split: thread_state.splits)

lemma dead_emitted: "dead w r \<Longrightarrow> emitted L (is_Tick_of r) as w = []"
proof (induction as arbitrary: w)
  case Nil
  then show ?case by simp
next
  case (Cons a as)
  from Cons.prems have "dead (snd (step L a w)) r" by (rule dead_step)
  then have "emitted L (is_Tick_of r) as (snd (step L a w)) = []" by (rule Cons.IH)
  moreover have "is_Tick_of r a \<Longrightarrow> drop (length (bus w)) (bus (snd (step L a w))) = []"
    using dead_silent [OF Cons.prems] by simp
  ultimately show ?case by (simp add: Let_def)
qed

lemma cancelled_dead:
  assumes "timer w (oid self) = Some r" and "snd r < length (heap w (fst r))"
    and "pc (heap w (fst r) ! snd r) \<noteq> Checked"
  shows "dead (snd (button_callback L self event k w)) r"
  using assms callback_length [of w "fst r" L self event k]
  by (cases r) (auto simp: dead_def callback_nth)

subsection \<open>Worlds without pending timers\<close>

lemma idle_step:
  assumes "idle w" and "quiet a"
  shows "idle (snd (step L a w)) \<and> bus (snd (step L a w)) = bus w \<and>
         timer (snd (step L a w)) = timer w"
proof (cases a)
  case (Raw self event k)
  with assms show ?thesis by (simp add: quiet_def)
next
  case (Tick r k)
  show ?thesis
  proof (cases "snd r < length (heap w (fst r))")
    case True
    with assms have "\<not> pending (heap w (fst r) ! snd r)" by (simp add: idle_def)
    with True assms show ?thesis
      by (auto simp: Tick step_def Timer_run_def Let_def idle_def pending_def upd_Timer_nth
          split: thread_state.splits)
  next
    case False
    with assms show ?thesis by (simp add: Tick step_def Timer_run_def)
  qed
next
  case (Advance d)
  with assms show ?thesis by (simp add: step_def idle_def)
qed

lemma idle_run:
  "idle w \<Longrightarrow> list_all quiet as \<Longrightarrow>
   idle (run L as w) \<and> bus (run L as w) = bus w \<and> timer (run L as w) = timer w"
proof (induction as arbitrary: w)
  case Nil
  then show ?case by simp
next
  case (Cons a as)
  from Cons.prems have s: "idle (snd (step L a w)) \<and> bus (snd (step L a w)) = bus w \<and>
      timer (snd (step L a w)) = timer w"
    using idle_step [of w a L] by simp
  with Cons.prems Cons.IH [of "snd (step L a w)"] show ?case by simp
qed

lemma idle_pending_refs: "idle w \<Longrightarrow> pending_refs w ob = []"
  by (simp add: idle_def pending_refs_def filter_empty_conv)

lemma idle_solo:
  "idle (solo L self t sl ts acts evs) = (\<forall>n<length ts. \<not> pending (ts ! n))"
  by (auto simp: idle_def solo_def)

section \<open>Invariants of schedules\<close>

lemma call_heap:
  "heap (snd (call L f k w)) =
     (case f of
        Long_press_func s \<Rightarrow>
          if k = Healthy
          then (heap w)(oid s := heap w (oid s) @
                 [\<lparr>interval = 1, timer_function = Super_long_press_func s, finished = False,
                   pc = Waiting (now w)\<rparr>])
          else heap w
      | Super_long_press_func s \<Rightarrow> heap w)"
  by (cases f; cases k)
    (simp_all add: call_def long_press_func_def super_long_press_func_def button_action_eq
      raises_def start_def new_Timer_def upd_Timer_eq)

lemma call_timer:
  "timer (snd (call L f k w)) =
     (case f of
        Long_press_func s \<Rightarrow>
          if k = Healthy then (timer w)(oid s \<mapsto> (oid s, length (heap w (oid s))))
          else timer w
      | Super_long_press_func s \<Rightarrow> (timer w)(oid s := None))"
  by (cases f; cases k)
    (simp_all add: call_def long_press_func_def super_long_press_func_def button_action_eq
      raises_def start_def new_Timer_def)

lemma call_now [simp]: "now (snd (call L f k w)) = now w"
  by (cases f; cases k)
    (simp_all add: call_def long_press_func_def super_long_press_func_def button_action_eq
      raises_def start_def new_Timer_def)

lemma Timer_run_length:
  "length (heap w ob) \<le> length (heap (snd (Timer_run L r k w)) ob)"
  by (simp add: Timer_run_snd call_length split: thread_state.splits)

lemma Timer_run_timer:
  "timer (snd (Timer_run L r k w)) =
     (if snd r < length (heap w (fst r)) \<and> pc (heap w (fst r) ! snd r) = Checked
      then timer (snd (call L (timer_function (heap w (fst r) ! snd r)) k w))
      else timer w)"
  by (simp add: Timer_run_snd split: thread_state.splits)

lemma Timer_run_now [simp]: "now (snd (Timer_run L r k w)) = now w"
  by (simp add: Timer_run_snd split: thread_state.splits)

subsection \<open>Ownership\<close>

lemma owned_callback: "owned w \<Longrightarrow> owned (snd (button_callback L self event k w))"
  unfolding owned_def
proof (intro conjI allI impI)
  fix ob r
  assume o: "(\<forall>ob r. timer w ob = Some r \<longrightarrow> fst r = ob \<and> snd r < length (heap w ob)) \<and>
    (\<forall>ob n. n < length (heap w ob) \<longrightarrow>
       oid (closure_self (timer_function (heap w ob ! n))) = ob)"
  assume t: "timer (snd (button_callback L self event k w)) ob = Some r"
  have o1: "fst r' = ob' \<and> snd r' < length (heap w ob')" if "timer w ob' = Some r'" for ob' r'
    using o that by blast
  show "fst r = ob"
    using o1 [of ob r] t by (cases "ob = oid self") (auto simp: callback_timer split: if_splits)
  show "snd r < length (heap (snd (button_callback L self event k w)) ob)"
  proof (cases "ob = oid self")
    case True
    with t show ?thesis
      by (auto simp: callback_timer callback_heap Let_def split: if_splits option.splits)
  next
    case False
    with t have "timer w ob = Some r" by (simp add: callback_timer)
    then have "snd r < length (heap w ob)" using o1 by blast
    with callback_length [of w ob L self event k] show ?thesis by simp
  qed
next
  fix ob n
  assume o: "(\<forall>ob r. timer w ob = Some r \<longrightarrow> fst r = ob \<and> snd r < length (heap w ob)) \<and>
    (\<forall>ob n. n < length (heap w ob) \<longrightarrow>
       oid (closure_self (timer_function (heap w ob ! n))) = ob)"
  assume n: "n < length (heap (snd (button_callback L self event k w)) ob)"
  show "oid (closure_self (timer_function (heap (snd (button_callback L self event k w)) ob ! n)))
          = ob"
  proof (cases "n < length (heap w ob)")
    case True
    with o show ?thesis by (simp add: callback_nth)
  next
    case False
    with n show ?thesis
      by (cases "ob = oid self")
        (auto simp: callback_heap Let_def nth_append split: if_splits option.splits)
  qed
qed

lemma owned_call: "owned w \<Longrightarrow> owned (snd (call L f k w))"
  by (cases f; cases k)
    (auto simp: owned_def call_heap call_timer nth_append)

lemma owned_upd:
  "owned w \<Longrightarrow> (\<And>t. timer_function (f t) = timer_function t) \<Longrightarrow> owned (upd_Timer r f w)"
  by (simp add: owned_def upd_Timer_nth)

lemma owned_Timer_run: "owned w \<Longrightarrow> owned (snd (Timer_run L r k w))"
  by (simp add: Timer_run_snd owned_upd owned_call split: thread_state.splits)

lemma owned_step: "owned w \<Longrightarrow> owned (snd (step L a w))"
  by (cases a) (simp_all add: step_def owned_callback owned_Timer_run, simp add: owned_def)

lemma owned_world0: "owned world0"
  by (simp add: owned_def world0_def)

subsection \<open>At most one pending timer\<close>

lemma pending_cancelled: "pending (t\<lparr>finished := True\<rparr>) \<longleftrightarrow> pc t = Checked"
  by (simp add: pending_def split: thread_state.splits)

lemma single_callback:
  assumes s: "single w" and c: "list_all (\<lambda>t. pc t \<noteq> Checked) (heap w (oid self))"
  shows "single (snd (button_callback L self event k w))"
  unfolding single_def
proof (intro allI impI)
  fix ob n
  let ?w' = "snd (button_callback L self event k w)"
  assume n: "n < length (heap ?w' ob)" and p: "pending (heap ?w' ob ! n)"
  show "timer ?w' ob = Some (ob, n)"
  proof (cases "n < length (heap w ob)")
    case True
    have nc: "ob = oid self \<Longrightarrow> pc (heap w ob ! n) \<noteq> Checked"
      using c True by (simp add: list_all_length)
    have old: "pending (heap w ob ! n)"
    proof (cases "timer w (oid self) = Some (ob, n)")
      case True
      with p \<open>n < length (heap w ob)\<close> have "pc (heap w ob ! n) = Checked"
        by (simp add: callback_nth pending_cancelled)
      then show ?thesis by (simp add: pending_def)
    next
      case False
      with p \<open>n < length (heap w ob)\<close> show ?thesis by (simp add: callback_nth)
    qed
    then have slot: "timer w ob = Some (ob, n)"
      using s True by (simp add: single_def)
    show ?thesis
    proof (cases "ob = oid self")
      case True
      with p \<open>n < length (heap w ob)\<close> slot nc show ?thesis
        by (simp add: callback_nth pending_cancelled)
    next
      case False
      with slot show ?thesis by (simp add: callback_timer)
    qed
  next
    case False
    with n show ?thesis
      by (cases "ob = oid self")
        (auto simp: callback_heap callback_timer Let_def split: if_splits option.splits)
  qed
qed

lemma single_upd:
  assumes "single w" and "\<And>t. pending (f t) \<Longrightarrow> pending t"
  shows "single (upd_Timer r f w)"
  using assms by (auto simp: single_def upd_Timer_nth split: if_splits)

lemma single_Timer_run:
  assumes s: "single w" and o: "owned w"
  shows "single (snd (Timer_run L r k w))"
proof (cases "snd r < length (heap w (fst r)) \<and> pc (heap w (fst r) ! snd r) = Checked")
  case False
  have "single (upd_Timer r (\<lambda>t. t\<lparr>pc := Exited\<rparr>) w)"
    using s by (rule single_upd) (simp add: pending_def)
  moreover have "single (upd_Timer r (\<lambda>t. t\<lparr>pc := Checked\<rparr>) w)"
    if "snd r < length (heap w (fst r))" "pc (heap w (fst r) ! snd r) = Waiting t0"
      "\<not> finished (heap w (fst r) ! snd r)" for t0
    using s that by (auto simp: single_def upd_Timer_nth pending_def split: if_splits)
  ultimately show ?thesis
    using False s by (auto simp: Timer_run_snd split: thread_state.splits)
next
  case True
  let ?t = "heap w (fst r) ! snd r"
  let ?f = "timer_function ?t"
  let ?w1 = "snd (call L ?f k w)"
  let ?g = "\<lambda>t. if k = Healthy then t\<lparr>finished := True, pc := Exited\<rparr> else t\<lparr>pc := Exited\<rparr>"
  have w': "snd (Timer_run L r k w) = upd_Timer r ?g ?w1"
    using True by (simp add: Timer_run_snd)
  have own: "oid (closure_self ?f) = fst r"
    using o True by (simp add: owned_def)
  have "pending ?t" using True by (simp add: pending_def)
  then have slot: "timer w (fst r) = Some (fst r, snd r)"
    using s True unfolding single_def by blast
  have only: "m = snd r" if "m < length (heap w (fst r))" "pending (heap w (fst r) ! m)" for m
  proof -
    have "timer w (fst r) = Some (fst r, m)"
      using s that unfolding single_def by blast
    with slot have "(fst r, snd r) = (fst r, m)" by (simp only: option.inject)
    then show ?thesis by (simp only: prod.inject)
  qed
  show ?thesis
    unfolding w' single_def
  proof (intro allI impI)
    fix ob n
    assume n: "n < length (heap (upd_Timer r ?g ?w1) ob)"
      and p: "pending (heap (upd_Timer r ?g ?w1) ob ! n)"
    have notr: "\<not> (ob = fst r \<and> n = snd r)"
      using p n by (auto simp: upd_Timer_nth pending_def split: if_splits)
    then have p1: "pending (heap ?w1 ob ! n)"
      using p by (auto simp: upd_Timer_nth split: if_splits)
    have n1: "n < length (heap ?w1 ob)" using n by simp
    show "timer (upd_Timer r ?g ?w1) ob = Some (ob, n)"
    proof (cases "n < length (heap w ob)")
      case True
      then have old: "pending (heap w ob ! n)" using p1 by (simp add: call_nth)
      then have slot': "timer w ob = Some (ob, n)" using s True by (simp add: single_def)
      have "ob \<noteq> fst r" using only [of n] True old notr by auto
      then show ?thesis
        using slot' own by (cases ?f; cases k) (simp_all add: call_timer)
    next
      case False
      with n1 own show ?thesis
        by (cases ?f; cases k) (auto simp: call_heap call_timer split: if_splits)
    qed
  qed
qed

lemma single_world0: "single world0"
  by (simp add: single_def world0_def)

lemma race_free_run:
  "race_free L as w \<Longrightarrow> owned w \<Longrightarrow> single w \<Longrightarrow> single (run L as w)"
proof (induction as arbitrary: w)
  case Nil
  then show ?case by simp
next
  case (Cons a as)
  have "single (snd (step L a w))"
  proof (cases a)
    case (Raw self event k)
    with Cons.prems show ?thesis by (simp add: step_def single_callback)
  next
    case (Tick r k)
    with Cons.prems show ?thesis by (simp add: step_def single_Timer_run)
  next
    case (Advance d)
    with Cons.prems show ?thesis by (simp add: step_def single_def)
  qed
  moreover have "owned (snd (step L a w))" using Cons.prems by (simp add: owned_step)
  ultimately show ?case using Cons.prems Cons.IH [of "snd (step L a w)"] by simp
qed

lemma race_free_take: "race_free L as w \<Longrightarrow> race_free L (take n as) w"
proof (induction as arbitrary: n w)
  case Nil
  then show ?case by simp
next
  case (Cons a as)
  then show ?case by (cases n) simp_all
qed

lemma single_at_most_one:
  assumes "single w"
  shows "length (pending_refs w ob) \<le> 1"
proof -
  have d: "distinct (pending_refs w ob)"
    by (simp add: pending_refs_def)
  have slot: "timer w ob = Some (ob, n)" if "n \<in> set (pending_refs w ob)" for n
    using assms that by (simp add: single_def pending_refs_def)
  have "a = b" if "a \<in> set (pending_refs w ob)" "b \<in> set (pending_refs w ob)" for a b
    using slot [OF that(1)] slot [OF that(2)] by simp
  then have "\<forall>a \<in> set (pending_refs w ob). \<forall>b \<in> set (pending_refs w ob). a = b"
    by blast
  then have "card (set (pending_refs w ob)) \<le> Suc 0"
    by (simp add: card_le_Suc0_iff_eq)
  with d show ?thesis
    by (simp add: distinct_card)
qed

lemma callback_clears_first:
  "button_callback L self event k w =
   button_callback L self event k
     ((case timer w (oid self) of None \<Rightarrow> w | Some r \<Rightarrow> cancel r w)
        \<lparr>timer := (timer w)(oid self := None)\<rparr>)"
  by (cases w; cases "timer w (oid self)")
    (simp_all add: button_callback_def cancel_def upd_Timer_def fun_upd_idem)

section \<open>Emissions\<close>

lemma callback_logbook:
  "logbook (snd (button_callback L self event k w)) =
     logbook w @
       (case k of
          FireFails e \<Rightarrow> []
        | _ \<Rightarrow> map (entry_of L) (drop (length (bus w))
                 (bus (snd (button_callback L self event k w)))))"
  by (cases k; cases "timer w (oid self)")
    (simp_all add: button_callback_def button_action_eq raises_def cancel_def start_def
      new_Timer_def Let_def entry_of_def)

lemma call_logbook:
  "logbook (snd (call L f k w)) =
     logbook w @
       (case k of
          FireFails e \<Rightarrow> []
        | _ \<Rightarrow> map (entry_of L) (drop (length (bus w)) (bus (snd (call L f k w)))))"
  by (cases f; cases k)
    (simp_all add: call_def long_press_func_def super_long_press_func_def button_action_eq
      raises_def start_def new_Timer_def entry_of_def)

lemma Timer_run_bus:
  "bus (snd (Timer_run L r k w)) =
     (if snd r < length (heap w (fst r)) \<and> pc (heap w (fst r) ! snd r) = Checked
      then bus (snd (call L (timer_function (heap w (fst r) ! snd r)) k w))
      else bus w)"
  by (simp add: Timer_run_snd split: thread_state.splits)

lemma Timer_run_logbook:
  "logbook (snd (Timer_run L r k w)) =
     (if snd r < length (heap w (fst r)) \<and> pc (heap w (fst r) ! snd r) = Checked
      then logbook (snd (call L (timer_function (heap w (fst r) ! snd r)) k w))
      else logbook w)"
  by (simp add: Timer_run_snd split: thread_state.splits)

lemma step_bus: "\<exists>out. bus (snd (step L a w)) = bus w @ out"
  by (cases a) (simp_all add: step_def callback_bus Timer_run_bus call_bus)

lemma logged_step:
  assumes "logged L w" and "\<not> fire_fails a"
  shows "logged L (snd (step L a w))"
proof (cases a)
  case (Raw self event k)
  with assms show ?thesis
    by (cases k)
      (simp_all add: step_def logged_def callback_logbook callback_bus fire_fails_def)
next
  case (Tick r k)
  with assms show ?thesis
    by (cases k)
      (simp_all add: step_def logged_def Timer_run_logbook Timer_run_bus call_logbook call_bus
        fire_fails_def)
next
  case (Advance d)
  with assms show ?thesis by (simp add: step_def logged_def)
qed

lemma logged_run:
  "logged L w \<Longrightarrow> list_all (\<lambda>a. \<not> fire_fails a) as \<Longrightarrow> logged L (run L as w)"
  by (induction as arbitrary: w) (simp_all add: logged_step)

lemma shaped_callback:
  assumes "shaped S w" and "self \<in> S"
  shows "shaped S (snd (button_callback L self event k w))"
  unfolding shaped_def
proof (intro conjI ballI allI impI)
  fix c
  assume "c \<in> set (bus (snd (button_callback L self event k w)))"
  with assms show "\<exists>s\<in>S. \<exists>a. c = (self_event s, data_of s a)"
    by (auto simp: shaped_def callback_bus split: if_splits)
next
  fix ob n
  assume n: "n < length (heap (snd (button_callback L self event k w)) ob)"
  show "closure_self (timer_function (heap (snd (button_callback L self event k w)) ob ! n))
          \<in> S"
  proof (cases "n < length (heap w ob)")
    case True
    with assms show ?thesis by (simp add: shaped_def callback_nth)
  next
    case False
    with n assms show ?thesis
      by (cases "ob = oid self")
        (auto simp: callback_heap Let_def nth_append split: if_splits option.splits)
  qed
qed

lemma shaped_call:
  assumes "shaped S w" and "closure_self f \<in> S"
  shows "shaped S (snd (call L f k w))"
  unfolding shaped_def
proof (intro conjI ballI allI impI)
  fix c
  assume "c \<in> set (bus (snd (call L f k w)))"
  with assms show "\<exists>s\<in>S. \<exists>a. c = (self_event s, data_of s a)"
    by (auto simp: shaped_def call_bus)
next
  fix ob n
  assume n: "n < length (heap (snd (call L f k w)) ob)"
  show "closure_self (timer_function (heap (snd (call L f k w)) ob ! n)) \<in> S"
  proof (cases "n < length (heap w ob)")
    case True
    with assms show ?thesis by (simp add: shaped_def call_nth)
  next
    case False
    with n assms show ?thesis
      by (cases f; cases k) (auto simp: call_heap nth_append split: if_splits)
  qed
qed

lemma shaped_upd:
  "shaped S w \<Longrightarrow> (\<And>t. timer_function (f t) = timer_function t) \<Longrightarrow>
   shaped S (upd_Timer r f w)"
  by (simp add: shaped_def upd_Timer_nth)

lemma shaped_Timer_run:
  assumes "shaped S w"
  shows "shaped S (snd (Timer_run L r k w))"
proof -
  have "shaped S (snd (call L (timer_function (heap w (fst r) ! snd r)) k w))"
    if "snd r < length (heap w (fst r))"
    using assms that by (intro shaped_call) (simp_all add: shaped_def)
  with assms show ?thesis
    by (simp add: Timer_run_snd shaped_upd split: thread_state.splits)
qed

lemma shaped_step:
  assumes "shaped S w" and "set (raw_selfs [a]) \<subseteq> S"
  shows "shaped S (snd (step L a w))"
proof (cases a)
  case (Raw self event k)
  with assms show ?thesis by (simp add: step_def shaped_callback)
next
  case (Tick r k)
  with assms show ?thesis by (simp add: step_def shaped_Timer_run)
next
  case (Advance d)
  with assms show ?thesis by (simp add: step_def shaped_def)
qed

lemma raw_selfs_Cons: "set (raw_selfs (a # as)) = set (raw_selfs [a]) \<union> set (raw_selfs as)"
  by simp

lemma shaped_run:
  "shaped S w \<Longrightarrow> set (raw_selfs as) \<subseteq> S \<Longrightarrow> shaped S (run L as w)"
proof (induction as arbitrary: w)
  case Nil
  then show ?case by simp
next
  case (Cons a as)
  from Cons.prems have "set (raw_selfs [a]) \<subseteq> S" and "set (raw_selfs as) \<subseteq> S"
    unfolding raw_selfs_Cons [of a as] by blast+
  with Cons.prems(1) Cons.IH [of "snd (step L a w)"] show ?case
    by (simp add: shaped_step del: raw_selfs.simps)
qed

lemma data_of_keys:
  "data_of s a =
     [(''id'', self_id s), (''action'', a), (''full_id'', self_full_id s),
      (''area_name'', self_area_name s), (''button_name'', self_button_name s)]"
  by (simp add: data_of_def ATTR_ID_def ATTR_ACTION_def ATTR_FULL_ID_def)

section \<open>Isolation of buttons\<close>

lemma cancel_heap_other: "fst r \<noteq> ob \<Longrightarrow> heap (cancel r w) ob = heap w ob"
  by (simp add: cancel_def upd_Timer_eq)

lemma cancel_heap_own:
  "heap (cancel r w) (fst r) =
     (heap w (fst r))[snd r := (heap w (fst r) ! snd r)\<lparr>finished := True\<rparr>]"
  by (simp add: cancel_def upd_Timer_eq)

lemma upd_Timer_heap_other: "fst r \<noteq> ob \<Longrightarrow> heap (upd_Timer r f w) ob = heap w ob"
  by (simp add: upd_Timer_eq)

lemma upd_Timer_heap_own:
  "heap (upd_Timer r f w) (fst r) = (heap w (fst r))[snd r := f (heap w (fst r) ! snd r)]"
  by (simp add: upd_Timer_eq)

lemma owned_slot: "owned w \<Longrightarrow> timer w ob = Some r \<Longrightarrow> fst r = ob"
  unfolding owned_def by blast

lemma owned_closure:
  "owned w \<Longrightarrow> n < length (heap w ob) \<Longrightarrow>
   oid (closure_self (timer_function (heap w ob ! n))) = ob"
  unfolding owned_def by blast

lemma callback_heap_other:
  assumes "owned w" and "oid self \<noteq> ob"
  shows "heap (snd (button_callback L self event k w)) ob = heap w ob"
proof (cases "timer w (oid self)")
  case None
  with assms show ?thesis by (simp add: callback_heap Let_def)
next
  case (Some r)
  with assms have "fst r \<noteq> ob" using owned_slot [of w "oid self" r] by simp
  with Some assms show ?thesis by (simp add: callback_heap Let_def cancel_heap_other)
qed

lemma callback_heap_own:
  assumes "owned w"
  shows "heap (snd (button_callback L self event k w)) (oid self) =
     (case timer w (oid self) of
        None \<Rightarrow> heap w (oid self)
      | Some r \<Rightarrow>
          (heap w (oid self))[snd r := (heap w (oid self) ! snd r)\<lparr>finished := True\<rparr>]) @
     (if event = PRESSED \<and> k = Healthy
      then [\<lparr>interval = 1 / 2, timer_function = Long_press_func self, finished = False,
             pc = Waiting (now w)\<rparr>]
      else [])"
proof (cases "timer w (oid self)")
  case None
  then show ?thesis by (simp add: callback_heap Let_def)
next
  case (Some r)
  have "fst r = oid self" using assms Some by (rule owned_slot)
  with Some cancel_heap_own [of r w] show ?thesis
    by (simp add: callback_heap Let_def)
qed

lemma frame_callback:
  assumes "owned w" and "oid self \<noteq> ob"
  shows "view ob (snd (button_callback L self event k w)) = view ob w"
  using assms by (simp add: view_def callback_heap_other callback_timer)

lemma det_callback:
  assumes "owned w1" and "owned w2" and "view (oid self) w1 = view (oid self) w2"
  shows "view (oid self) (snd (button_callback L self event k w1)) =
         view (oid self) (snd (button_callback L self event k w2))"
proof -
  from assms(3) have "now w1 = now w2" and "timer w1 (oid self) = timer w2 (oid self)"
    and "heap w1 (oid self) = heap w2 (oid self)"
    by (simp_all add: view_def)
  with assms(1,2) show ?thesis
    by (simp add: view_def callback_heap_own callback_timer cong: option.case_cong)
qed

lemma call_view_other:
  "oid (closure_self f) \<noteq> ob \<Longrightarrow> view ob (snd (call L f k w)) = view ob w"
  by (cases f; cases k) (simp_all add: view_def call_heap call_timer)

lemma call_view_own:
  "view (oid (closure_self f)) w1 = view (oid (closure_self f)) w2 \<Longrightarrow>
   view (oid (closure_self f)) (snd (call L f k w1)) =
   view (oid (closure_self f)) (snd (call L f k w2))"
  by (cases f; cases k) (simp_all add: view_def call_heap call_timer)

lemma view_upd_other: "fst r \<noteq> ob \<Longrightarrow> view ob (upd_Timer r f w) = view ob w"
  by (simp add: view_def upd_Timer_heap_other)

lemma view_upd_own:
  "view (fst r) w1 = view (fst r) w2 \<Longrightarrow>
   view (fst r) (upd_Timer r f w1) = view (fst r) (upd_Timer r f w2)"
  by (simp add: view_def upd_Timer_heap_own)

lemma frame_Timer_run:
  assumes "owned w" and "fst r \<noteq> ob"
  shows "view ob (snd (Timer_run L r k w)) = view ob w"
proof (cases "snd r < length (heap w (fst r))")
  case False
  then show ?thesis by (simp add: Timer_run_snd)
next
  case True
  with assms have "oid (closure_self (timer_function (heap w (fst r) ! snd r))) \<noteq> ob"
    by (simp add: owned_closure)
  then have "view ob (snd (call L (timer_function (heap w (fst r) ! snd r)) k w)) = view ob w"
    by (rule call_view_other)
  with assms(2) show ?thesis
    by (simp add: Timer_run_snd view_upd_other split: thread_state.splits)
qed

lemma det_Timer_run:
  assumes "owned w1" and "owned w2" and v: "view (fst r) w1 = view (fst r) w2"
  shows "view (fst r) (snd (Timer_run L r k w1)) = view (fst r) (snd (Timer_run L r k w2))"
proof (cases "snd r < length (heap w1 (fst r))")
  case False
  with v show ?thesis by (simp add: Timer_run_snd view_def)
next
  case True
  let ?f = "timer_function (heap w1 (fst r) ! snd r)"
  have h: "heap w2 (fst r) = heap w1 (fst r)" and t: "now w2 = now w1"
    using v by (simp_all add: view_def)
  have "oid (closure_self ?f) = fst r"
    using assms(1) True by (rule owned_closure)
  with v call_view_own [of ?f w1 w2 L k]
  have c: "view (fst r) (snd (call L ?f k w1)) = view (fst r) (snd (call L ?f k w2))"
    by simp
  have valid2: "snd r < length (heap w2 (fst r))"
    using True h by simp
  have same: "heap w2 (fst r) ! snd r = heap w1 (fst r) ! snd r"
    using h by simp
  show ?thesis
  proof (cases "pc (heap w1 (fst r) ! snd r)")
    case Unstarted
    with True valid2 same v show ?thesis by (simp add: Timer_run_snd)
  next
    case (Waiting t0)
    have "view (fst r) (upd_Timer r (\<lambda>t. t\<lparr>pc := Exited\<rparr>) w1) =
          view (fst r) (upd_Timer r (\<lambda>t. t\<lparr>pc := Exited\<rparr>) w2)"
      using v by (rule view_upd_own)
    moreover have "view (fst r) (upd_Timer r (\<lambda>t. t\<lparr>pc := Checked\<rparr>) w1) =
          view (fst r) (upd_Timer r (\<lambda>t. t\<lparr>pc := Checked\<rparr>) w2)"
      using v by (rule view_upd_own)
    ultimately show ?thesis
      using True valid2 same Waiting v t by (simp add: Timer_run_snd)
  next
    case Checked
    have "view (fst r)
            (upd_Timer r (\<lambda>t. if k = Healthy then t\<lparr>finished := True, pc := Exited\<rparr>
                                else t\<lparr>pc := Exited\<rparr>) (snd (call L ?f k w1))) =
          view (fst r)
            (upd_Timer r (\<lambda>t. if k = Healthy then t\<lparr>finished := True, pc := Exited\<rparr>
                                else t\<lparr>pc := Exited\<rparr>) (snd (call L ?f k w2)))"
      using c by (rule view_upd_own)
    then show ?thesis
      using True valid2 same Checked by (simp add: Timer_run_snd)
  next
    case Exited
    with True valid2 same v show ?thesis by (simp add: Timer_run_snd)
  qed
qed

lemma frame_step:
  assumes "owned w" and "\<not> concerns ob a"
  shows "view ob (snd (step L a w)) = view ob w"
proof (cases a)
  case (Raw self event k)
  with assms show ?thesis by (simp add: step_def concerns_def frame_callback)
next
  case (Tick r k)
  with assms show ?thesis by (simp add: step_def concerns_def frame_Timer_run)
next
  case (Advance d)
  with assms show ?thesis by (simp add: concerns_def)
qed

lemma det_step:
  assumes "owned w1" and "owned w2" and "view ob w1 = view ob w2" and "concerns ob a"
  shows "view ob (snd (step L a w1)) = view ob (snd (step L a w2))"
proof (cases a)
  case (Raw self event k)
  with assms det_callback [of w1 w2 self L event k] show ?thesis
    by (simp add: step_def concerns_def)
next
  case (Tick r k)
  with assms det_Timer_run [of w1 w2 r L k] show ?thesis
    by (simp add: step_def concerns_def)
next
  case (Advance d)
  with assms show ?thesis by (simp add: step_def view_def)
qed

lemma det_delta:
  assumes "view ob w1 = view ob w2" and "concerns ob a"
  shows "drop (length (bus w1)) (bus (snd (step L a w1))) =
         drop (length (bus w2)) (bus (snd (step L a w2)))"
proof (cases a)
  case (Raw self event k)
  then show ?thesis by (simp add: step_def callback_bus)
next
  case (Tick r k)
  with assms have "heap w2 (fst r) = heap w1 (fst r)"
    by (simp add: concerns_def view_def)
  with Tick show ?thesis by (simp add: step_def Timer_run_bus call_bus)
next
  case (Advance d)
  then show ?thesis by (simp add: step_def)
qed

lemma isolation_run:
  assumes "owned w1" and "owned w2" and "view ob w1 = view ob w2"
  shows "view ob (run L as w1) = view ob (run L (filter (concerns ob) as) w2) \<and>
         emitted L (concerns ob) as w1 = emitted L (concerns ob) (filter (concerns ob) as) w2"
  using assms
proof (induction as arbitrary: w1 w2)
  case Nil
  then show ?case by simp
next
  case (Cons a as)
  show ?case
  proof (cases "concerns ob a")
    case True
    have "view ob (snd (step L a w1)) = view ob (snd (step L a w2))"
      using Cons.prems True by (rule det_step)
    moreover have "owned (snd (step L a w1))" and "owned (snd (step L a w2))"
      using Cons.prems by (simp_all add: owned_step)
    ultimately have "view ob (run L as (snd (step L a w1))) =
        view ob (run L (filter (concerns ob) as) (snd (step L a w2))) \<and>
      emitted L (concerns ob) as (snd (step L a w1)) =
        emitted L (concerns ob) (filter (concerns ob) as) (snd (step L a w2))"
      by (intro Cons.IH)
    moreover have "drop (length (bus w1)) (bus (snd (step L a w1))) =
        drop (length (bus w2)) (bus (snd (step L a w2)))"
      using Cons.prems(3) True by (rule det_delta)
    ultimately show ?thesis using True by (simp add: Let_def)
  next
    case False
    have "view ob (snd (step L a w1)) = view ob w1"
      using Cons.prems(1) False by (rule frame_step)
    then have "view ob (snd (step L a w1)) = view ob w2"
      using Cons.prems(3) by simp
    moreover have "owned (snd (step L a w1))"
      using Cons.prems by (simp add: owned_step)
    ultimately have "view ob (run L as (snd (step L a w1))) =
        view ob (run L (filter (concerns ob) as) w2) \<and>
      emitted L (concerns ob) as (snd (step L a w1)) =
        emitted L (concerns ob) (filter (concerns ob) as) w2"
      using Cons.prems(2) by (intro Cons.IH)
    then show ?thesis using False by (simp add: Let_def)
  qed
qed

lemma emitted_all:
  "list_all P as \<Longrightarrow> bus (run L as w) = bus w @ emitted L P as w"
proof (induction as arbitrary: w)
  case Nil
  then show ?case by simp
next
  case (Cons a as)
  obtain out where out: "bus (snd (step L a w)) = bus w @ out"
    using step_bus [of L a w] by blast
  from Cons.prems have "bus (run L as (snd (step L a w))) =
      bus (snd (step L a w)) @ emitted L P as (snd (step L a w))"
    by (intro Cons.IH) simp
  with Cons.prems out show ?case by (simp add: Let_def)
qed

section \<open>The claims\<close>

subsection \<open>C1\<close>

text \<open>
  C1, evaluated on the code. The button is built from a button of type \<open>Toggle\<close>, so its
  release flag is false; the callback never reads the flag, and PRESS followed by RELEASE
  emits \<open>pressed\<close> and then \<open>released\<close>.
\<close>

theorem release_emitted_without_release_flag:
  "\<not> self_has_release_event toggle_button \<and>
   actions (run example_lib
     [Raw toggle_button PRESSED Healthy, Raw toggle_button RELEASED Healthy] world0)
     = [''pressed'', ''released'']"
  by (simp add: solo_world0 [of example_lib toggle_button] solo_steps toggle_button_eq)

subsection \<open>C2\<close>

text \<open>
  C2, as the code has it. When a raw event cancels the timer in the slot before the
  thread of that timer has passed its test of the cancellation flag, the timer never emits
  anything afterwards, in any schedule. In particular, after a press at time 0 and a press
  processed at time 0.3 s, the first timer never emits.
\<close>

theorem cancelled_waiting_timer_never_runs:
  assumes "timer w (oid self) = Some r" and "snd r < length (heap w (fst r))"
    and "pc (heap w (fst r) ! snd r) \<noteq> Checked"
  shows
    "emitted L (is_Tick_of r) as (snd (button_callback L self event k w)) = [] \<and>
     emitted L (is_Tick_of (oid self', 0)) as
       (run L [Raw self' PRESSED Healthy, Advance (3 / 10), Raw self' PRESSED Healthy] world0)
       = []"
proof -
  have "dead (snd (button_callback L self event k w)) r"
    using assms by (rule cancelled_dead)
  then have first: "emitted L (is_Tick_of r) as (snd (button_callback L self event k w)) = []"
    by (rule dead_emitted)
  have "dead (run L [Raw self' PRESSED Healthy, Advance (3 / 10),
      Raw self' PRESSED Healthy] world0) (oid self', 0)"
    by (simp add: solo_world0 [of L self'] solo_steps dead_def)
  then have "emitted L (is_Tick_of (oid self', 0)) as
       (run L [Raw self' PRESSED Healthy, Advance (3 / 10), Raw self' PRESSED Healthy] world0)
       = []"
    by (rule dead_emitted)
  with first show ?thesis by simp
qed

theorem cancelled_waiting_timer_never_runs_witness:
  "timer (run example_lib [Raw toggle_button PRESSED Healthy, Advance (3 / 10)] world0)
     (oid toggle_button) = Some (oid toggle_button, 0) \<and>
   0 < length (heap (run example_lib [Raw toggle_button PRESSED Healthy, Advance (3 / 10)]
     world0) (oid toggle_button)) \<and>
   pc (heap (run example_lib [Raw toggle_button PRESSED Healthy, Advance (3 / 10)] world0)
     (oid toggle_button) ! 0) \<noteq> Checked \<and>
   emitted example_lib (is_Tick_of (oid toggle_button, 0))
     [Advance 1, Tick (oid toggle_button, 0) Healthy, Tick (oid toggle_button, 0) Healthy]
     (snd (button_callback example_lib toggle_button PRESSED Healthy
       (run example_lib [Raw toggle_button PRESSED Healthy, Advance (3 / 10)] world0))) = []"
  using cancelled_waiting_timer_never_runs
    [of "run example_lib [Raw toggle_button PRESSED Healthy, Advance (3 / 10)] world0"
      toggle_button "(oid toggle_button, 0)" example_lib
      "[Advance 1, Tick (oid toggle_button, 0) Healthy, Tick (oid toggle_button, 0) Healthy]"
      PRESSED Healthy]
  by (simp add: solo_world0 [of example_lib toggle_button] solo_steps)

text \<open>
  C2 as stated fails when the timer thread races with the cancellation. The thread of the
  first timer passes its test at 0.5 s; a second press is then processed and sets the
  cancellation flag of that timer; the thread, which no longer looks at the flag, then
  calls its function and \<open>long_pressed\<close> is emitted by the cancelled timer.
\<close>

theorem cancelled_timer_runs_after_race:
  "finished (heap (run example_lib [Raw toggle_button PRESSED Healthy, Advance (1 / 2),
      Tick (oid toggle_button, 0) Healthy, Raw toggle_button PRESSED Healthy] world0)
      (oid toggle_button) ! 0) \<and>
   emitted example_lib (is_Tick_of (oid toggle_button, 0))
     [Tick (oid toggle_button, 0) Healthy]
     (run example_lib [Raw toggle_button PRESSED Healthy, Advance (1 / 2),
      Tick (oid toggle_button, 0) Healthy, Raw toggle_button PRESSED Healthy] world0)
     = [(''lutron_event'', data_of toggle_button ''long_pressed'')] \<and>
   actions (run example_lib [Raw toggle_button PRESSED Healthy, Advance (1 / 2),
      Tick (oid toggle_button, 0) Healthy, Raw toggle_button PRESSED Healthy,
      Tick (oid toggle_button, 0) Healthy] world0)
     = [''pressed'', ''pressed'', ''long_pressed'']"
proof -
  have ev: "self_event toggle_button = ''lutron_event''"
    by (simp add: toggle_button_eq)
  show ?thesis
    by (simp add: solo_world0 [of example_lib toggle_button] solo_steps is_Tick_of_def ev)
qed

subsection \<open>C3\<close>

text \<open>
  C3, as the code has it. A raw event that is neither PRESSED nor RELEASED emits nothing
  and writes no log entry, and no exception leaves the callback; but, as for every raw
  event, the timer in the slot is cancelled and the slot is cleared.
\<close>

theorem unrecognized_event_cancels_timer:
  "fst (button_callback L self (OTHER n) k w) = None \<and>
   bus (snd (button_callback L self (OTHER n) k w)) = bus w \<and>
   logbook (snd (button_callback L self (OTHER n) k w)) = logbook w \<and>
   now (snd (button_callback L self (OTHER n) k w)) = now w \<and>
   timer (snd (button_callback L self (OTHER n) k w)) = (timer w)(oid self := None) \<and>
   heap (snd (button_callback L self (OTHER n) k w)) =
     (case timer w (oid self) of None \<Rightarrow> heap w | Some r \<Rightarrow> heap (cancel r w))"
  by (simp add: button_callback_def prim_defs Let_def fun_eq_iff split: option.splits)

text \<open>
  C3 as stated fails: after a press the slot of the button holds its armed timer; an
  unrecognized raw event empties the slot and sets the cancellation flag of that timer.
\<close>

theorem unrecognized_event_changes_state:
  "timer (run example_lib [Raw toggle_button PRESSED Healthy] world0) (oid toggle_button)
     = Some (oid toggle_button, 0) \<and>
   timer (run example_lib [Raw toggle_button PRESSED Healthy,
     Raw toggle_button (OTHER 3) Healthy] world0) (oid toggle_button) = None \<and>
   \<not> finished (heap (run example_lib [Raw toggle_button PRESSED Healthy] world0)
     (oid toggle_button) ! 0) \<and>
   finished (heap (run example_lib [Raw toggle_button PRESSED Healthy,
     Raw toggle_button (OTHER 3) Healthy] world0) (oid toggle_button) ! 0)"
  by (simp add: solo_world0 [of example_lib toggle_button] solo_steps)

subsection \<open>C4\<close>

text \<open>
  C4. After a single press the button emits \<open>pressed\<close> at once. When at least 0.5 s
  have passed the first timer passes its test and emits \<open>long_pressed\<close>; when at least
  a further 1.0 s has passed the second timer emits \<open>super_long_pressed\<close>. Neither timer
  acts earlier. At the end the slot is empty and no timer of the button is pending.
\<close>

theorem long_press_escalation:
  assumes "1 / 2 \<le> d1" and "1 \<le> d2" and "e1 < 1 / 2" and "e2 < 1"
  shows
    "actions (run L [Raw self PRESSED Healthy] world0) = [''pressed''] \<and>
     actions (run L [Raw self PRESSED Healthy, Advance e1,
       Tick (oid self, 0) Healthy, Tick (oid self, 0) Healthy] world0) = [''pressed''] \<and>
     actions (run L [Raw self PRESSED Healthy, Advance d1,
       Tick (oid self, 0) Healthy, Tick (oid self, 0) Healthy] world0)
       = [''pressed'', ''long_pressed''] \<and>
     actions (run L [Raw self PRESSED Healthy, Advance d1,
       Tick (oid self, 0) Healthy, Tick (oid self, 0) Healthy, Advance e2,
       Tick (oid self, 1) Healthy, Tick (oid self, 1) Healthy] world0)
       = [''pressed'', ''long_pressed''] \<and>
     actions (run L [Raw self PRESSED Healthy, Advance d1,
       Tick (oid self, 0) Healthy, Tick (oid self, 0) Healthy, Advance d2,
       Tick (oid self, 1) Healthy, Tick (oid self, 1) Healthy] world0)
       = [''pressed'', ''long_pressed'', ''super_long_pressed''] \<and>
     timer (run L [Raw self PRESSED Healthy, Advance d1,
       Tick (oid self, 0) Healthy, Tick (oid self, 0) Healthy, Advance d2,
       Tick (oid self, 1) Healthy, Tick (oid self, 1) Healthy] world0) (oid self) = None \<and>
     pending_refs (run L [Raw self PRESSED Healthy, Advance d1,
       Tick (oid self, 0) Healthy, Tick (oid self, 0) Healthy, Advance d2,
       Tick (oid self, 1) Healthy, Tick (oid self, 1) Healthy] world0) (oid self) = []"
  using assms
  by (simp add: solo_world0 [of L self] solo_steps pending_refs_def pending_def)

theorem long_press_escalation_witness:
  "(1 / 2 :: rat) \<le> 1 / 2 \<and> (1 :: rat) \<le> 1 \<and> (0 :: rat) < 1 / 2 \<and> (1 / 2 :: rat) < 1 \<and>
   actions (run example_lib [Raw toggle_button PRESSED Healthy, Advance (1 / 2),
       Tick (oid toggle_button, 0) Healthy, Tick (oid toggle_button, 0) Healthy, Advance 1,
       Tick (oid toggle_button, 1) Healthy, Tick (oid toggle_button, 1) Healthy] world0)
       = [''pressed'', ''long_pressed'', ''super_long_pressed'']"
  using long_press_escalation [of "1 / 2" 1 0 "1 / 2" example_lib toggle_button] by simp

subsection \<open>C5\<close>

text \<open>
  C5. For a button whose release flag is set, a press followed by a release before the
  0.5 s timer has elapsed emits \<open>pressed\<close> and \<open>released\<close>. The release cancels the
  armed timer and clears the slot, so whatever the timer threads do afterwards and however
  much time passes, nothing more is emitted and no timer is pending.
\<close>

theorem press_release_roundtrip:
  assumes "self_has_release_event self" and "d < 1 / 2" and "list_all quiet later"
  shows
    "actions (run L ([Raw self PRESSED Healthy, Advance d, Tick (oid self, 0) k,
        Raw self RELEASED Healthy] @ later) world0) = [''pressed'', ''released''] \<and>
     timer (run L ([Raw self PRESSED Healthy, Advance d, Tick (oid self, 0) k,
        Raw self RELEASED Healthy] @ later) world0) (oid self) = None \<and>
     pending_refs (run L ([Raw self PRESSED Healthy, Advance d, Tick (oid self, 0) k,
        Raw self RELEASED Healthy] @ later) world0) (oid self) = []"
proof -
  let ?w = "run L [Raw self PRESSED Healthy, Advance d, Tick (oid self, 0) k,
    Raw self RELEASED Healthy] world0"
  have w: "?w = solo L self (max 0 d) None
      [\<lparr>interval = 1 / 2, timer_function = Long_press_func self, finished = True,
        pc = Waiting 0\<rparr>]
      [''pressed'', ''released''] [PRESSED, RELEASED]"
    using assms(2) by (simp add: solo_world0 [of L self] solo_steps)
  have "idle ?w"
    unfolding w by (simp add: idle_solo pending_def)
  then have later: "idle (run L later ?w) \<and> bus (run L later ?w) = bus ?w \<and>
      timer (run L later ?w) = timer ?w"
    using assms(3) by (rule idle_run)
  have "actions (run L later ?w) = actions ?w"
    using later by (simp add: actions_def)
  moreover have "actions ?w = [''pressed'', ''released'']"
    unfolding w by simp
  moreover have "timer (run L later ?w) (oid self) = None"
    using later unfolding w by simp
  moreover have "pending_refs (run L later ?w) (oid self) = []"
    using later by (simp add: idle_pending_refs)
  ultimately show ?thesis
    unfolding run_append by simp
qed

theorem press_release_roundtrip_witness:
  "self_has_release_event raise_button \<and> (1 / 5 :: rat) < 1 / 2 \<and>
   list_all quiet [Advance 2, Tick (oid raise_button, 0) Healthy] \<and>
   actions (run example_lib ([Raw raise_button PRESSED Healthy, Advance (1 / 5),
     Tick (oid raise_button, 0) Healthy, Raw raise_button RELEASED Healthy] @
     [Advance 2, Tick (oid raise_button, 0) Healthy]) world0) = [''pressed'', ''released'']"
  using press_release_roundtrip [of raise_button "1 / 5"
      "[Advance 2, Tick (oid raise_button, 0) Healthy]" example_lib Healthy]
  by (simp add: raise_button_eq quiet_def)

subsection \<open>C6\<close>

text \<open>
  C6, as the code has it. The slot of a button holds at most one timer, and every raw-event
  call first cancels the timer in the slot and clears the slot: the call has the same
  result as the call made after that cancellation, and the timer that was in the slot has
  its flag set afterwards. Over every schedule in which no raw event of a button is
  processed between the test of the flag by one of its timer threads and the call of the
  timer function, the button has at most one pending timer at every instant.
\<close>

theorem one_pending_timer_without_races:
  assumes "race_free L as world0"
  shows
    "length (pending_refs (run L (take n as) world0) ob) \<le> 1 \<and>
     button_callback L self event k w =
       button_callback L self event k
         ((case timer w (oid self) of None \<Rightarrow> w | Some r \<Rightarrow> cancel r w)
            \<lparr>timer := (timer w)(oid self := None)\<rparr>) \<and>
     (\<forall>r. timer w (oid self) = Some r \<longrightarrow> snd r < length (heap w (fst r)) \<longrightarrow>
        finished (heap (snd (button_callback L self event k w)) (fst r) ! snd r))"
proof -
  have "race_free L (take n as) world0"
    using assms by (rule race_free_take)
  then have "single (run L (take n as) world0)"
    using owned_world0 single_world0 by (rule race_free_run)
  then have "length (pending_refs (run L (take n as) world0) ob) \<le> 1"
    by (rule single_at_most_one)
  moreover have "finished (heap (snd (button_callback L self event k w)) (fst r) ! snd r)"
    if "timer w (oid self) = Some r" "snd r < length (heap w (fst r))" for r
    using that by (simp add: callback_nth)
  ultimately show ?thesis
    using callback_clears_first [of L self event k w] by blast
qed

theorem one_pending_timer_without_races_witness:
  "race_free example_lib [Raw toggle_button PRESSED Healthy, Advance (1 / 2),
     Tick (oid toggle_button, 0) Healthy, Tick (oid toggle_button, 0) Healthy,
     Raw toggle_button RELEASED Healthy] world0 \<and>
   length (pending_refs (run example_lib (take 4 [Raw toggle_button PRESSED Healthy,
     Advance (1 / 2), Tick (oid toggle_button, 0) Healthy, Tick (oid toggle_button, 0) Healthy,
     Raw toggle_button RELEASED Healthy]) world0) (oid toggle_button)) \<le> 1 \<and>
   pending_refs (run example_lib (take 4 [Raw toggle_button PRESSED Healthy,
     Advance (1 / 2), Tick (oid toggle_button, 0) Healthy, Tick (oid toggle_button, 0) Healthy,
     Raw toggle_button RELEASED Healthy]) world0) (oid toggle_button) = [1]"
proof -
  have rf: "race_free example_lib [Raw toggle_button PRESSED Healthy, Advance (1 / 2),
     Tick (oid toggle_button, 0) Healthy, Tick (oid toggle_button, 0) Healthy,
     Raw toggle_button RELEASED Healthy] world0"
    by (simp add: solo_world0 [of example_lib toggle_button] solo_steps)
  have "pending_refs (run example_lib (take 4 [Raw toggle_button PRESSED Healthy,
     Advance (1 / 2), Tick (oid toggle_button, 0) Healthy, Tick (oid toggle_button, 0) Healthy,
     Raw toggle_button RELEASED Healthy]) world0) (oid toggle_button) = [1]"
    by (simp add: solo_world0 [of example_lib toggle_button] solo_steps pending_refs_def
        pending_def)
  with rf one_pending_timer_without_races [OF rf, of 4 "oid toggle_button"]
  show ?thesis by simp
qed

text \<open>
  C6 as stated fails. The thread of the first timer passes its test; a second press arms a
  second timer; the first thread then runs its function, which arms a third timer and
  overwrites the slot without cancelling the second: timers 1 and 2 are pending together.
\<close>

theorem two_pending_timers_after_race:
  "pending_refs (run example_lib [Raw toggle_button PRESSED Healthy, Advance (1 / 2),
      Tick (oid toggle_button, 0) Healthy, Raw toggle_button PRESSED Healthy,
      Tick (oid toggle_button, 0) Healthy] world0) (oid toggle_button) = [1, 2] \<and>
   \<not> length (pending_refs (run example_lib [Raw toggle_button PRESSED Healthy,
      Advance (1 / 2), Tick (oid toggle_button, 0) Healthy, Raw toggle_button PRESSED Healthy,
      Tick (oid toggle_button, 0) Healthy] world0) (oid toggle_button)) \<le> 1"
  by (simp add: solo_world0 [of example_lib toggle_button] solo_steps pending_refs_def
      pending_def)

subsection \<open>C7\<close>

text \<open>
  C7. Every call of the bus, in every schedule from the initial world, carries the event
  name of one of the buttons that received raw events and the payload with the five keys
  \<open>id\<close>, \<open>action\<close>, \<open>full_id\<close>, \<open>area_name\<close>, \<open>button_name\<close> filled from that button's
  attributes. When the bus never raises, the log book holds, in the same order, one entry
  for each call of the bus: the action, the payload as text, and the domain. The
  constructor gives every button the event name \<open>lutron_event\<close> and copies the identity
  attributes from its arguments.
\<close>

theorem emission_shape:
  "(\<forall>c \<in> set (bus (run L as world0)). \<exists>s \<in> set (raw_selfs as).
      fst c = self_event s \<and>
      snd c = [(''id'', self_id s), (''action'', action_of c), (''full_id'', self_full_id s),
               (''area_name'', self_area_name s), (''button_name'', self_button_name s)]) \<and>
   (list_all (\<lambda>a. \<not> fire_fails a) as \<longrightarrow>
      logbook (run L as world0) =
        map (\<lambda>c. (action_of c, str_dict L (snd c), ''lutron_custom''))
          (bus (run L as world0))) \<and>
   self_event (fst (LutronButton_init L ob area keypad button w)) = ''lutron_event'' \<and>
   self_id (fst (LutronButton_init L ob area keypad button w)) =
     slugify L (keypad_name keypad @ '': '' @ button_name button @
       (if button_name button = ''Unknown Button''
        then '' '' @ str_int (button_number button) else [])) \<and>
   self_full_id (fst (LutronButton_init L ob area keypad button w)) =
     slugify L (area @ '' '' @ keypad_name keypad @ '': '' @ button_name button @
       (if button_name button = ''Unknown Button''
        then '' '' @ str_int (button_number button) else [])) \<and>
   self_area_name (fst (LutronButton_init L ob area keypad button w)) = area \<and>
   self_button_name (fst (LutronButton_init L ob area keypad button w)) = button_name button"
proof -
  have "shaped (set (raw_selfs as)) world0"
    by (simp add: shaped_def world0_def)
  then have "shaped (set (raw_selfs as)) (run L as world0)"
    by (rule shaped_run) simp
  then have shape: "\<forall>c \<in> set (bus (run L as world0)). \<exists>s \<in> set (raw_selfs as).
      fst c = self_event s \<and>
      snd c = [(''id'', self_id s), (''action'', action_of c), (''full_id'', self_full_id s),
               (''area_name'', self_area_name s), (''button_name'', self_button_name s)]"
    unfolding shaped_def by (fastforce simp: data_of_keys [symmetric])
  have "logged L world0"
    by (simp add: logged_def world0_def)
  then have "logged L (run L as world0)" if "list_all (\<lambda>a. \<not> fire_fails a) as"
    using that by (rule logged_run)
  then have log: "list_all (\<lambda>a. \<not> fire_fails a) as \<longrightarrow>
      logbook (run L as world0) =
        map (\<lambda>c. (action_of c, str_dict L (snd c), ''lutron_custom''))
          (bus (run L as world0))"
    by (simp add: logged_def entry_of_def [abs_def] DOMAIN_def)
  have i1: "self_event (fst (LutronButton_init L ob area keypad button w)) = ''lutron_event''"
    by (simp add: LutronButton_init_def Let_def)
  have i2: "self_id (fst (LutronButton_init L ob area keypad button w)) =
     slugify L (keypad_name keypad @ '': '' @ button_name button @
       (if button_name button = ''Unknown Button''
        then '' '' @ str_int (button_number button) else []))"
    by (simp add: LutronButton_init_def Let_def)
  have i3: "self_full_id (fst (LutronButton_init L ob area keypad button w)) =
     slugify L (area @ '' '' @ keypad_name keypad @ '': '' @ button_name button @
       (if button_name button = ''Unknown Button''
        then '' '' @ str_int (button_number button) else []))"
    by (simp add: LutronButton_init_def Let_def)
  have i4: "self_area_name (fst (LutronButton_init L ob area keypad button w)) = area"
    by (simp add: LutronButton_init_def Let_def)
  have i5: "self_button_name (fst (LutronButton_init L ob area keypad button w)) =
     button_name button"
    by (simp add: LutronButton_init_def Let_def)
  from shape log i1 i2 i3 i4 i5 show ?thesis by (intro conjI)
qed

theorem emission_shape_witness:
  "list_all (\<lambda>a. \<not> fire_fails a) [Raw toggle_button PRESSED Healthy, Advance (1 / 2),
     Tick (oid toggle_button, 0) Healthy, Tick (oid toggle_button, 0) Healthy] \<and>
   bus (run example_lib [Raw toggle_button PRESSED Healthy, Advance (1 / 2),
     Tick (oid toggle_button, 0) Healthy, Tick (oid toggle_button, 0) Healthy] world0) =
     [(''lutron_event'', data_of toggle_button ''pressed''),
      (''lutron_event'', data_of toggle_button ''long_pressed'')] \<and>
   logbook (run example_lib [Raw toggle_button PRESSED Healthy, Advance (1 / 2),
     Tick (oid toggle_button, 0) Healthy, Tick (oid toggle_button, 0) Healthy] world0) =
     [(''pressed'', str_dict example_lib (data_of toggle_button ''pressed''), ''lutron_custom''),
      (''long_pressed'', str_dict example_lib (data_of toggle_button ''long_pressed''),
       ''lutron_custom'')]"
proof -
  let ?as = "[Raw toggle_button PRESSED Healthy, Advance (1 / 2),
     Tick (oid toggle_button, 0) Healthy, Tick (oid toggle_button, 0) Healthy]"
  have ok: "list_all (\<lambda>a. \<not> fire_fails a) ?as"
    by (simp add: fire_fails_def)
  have ev: "self_event toggle_button = ''lutron_event''"
    by (simp add: toggle_button_eq)
  have b: "bus (run example_lib ?as world0) =
     [(''lutron_event'', data_of toggle_button ''pressed''),
      (''lutron_event'', data_of toggle_button ''long_pressed'')]"
    by (simp add: solo_world0 [of example_lib toggle_button] solo_steps ev)
  from emission_shape [of example_lib ?as] ok
  have "logbook (run example_lib ?as world0) =
        map (\<lambda>c. (action_of c, str_dict example_lib (snd c), ''lutron_custom''))
          (bus (run example_lib ?as world0))"
    by blast
  with ok b show ?thesis by simp
qed

subsection \<open>C8\<close>

text \<open>
  C8. When \<open>hass.bus.fire\<close> or \<open>logbook.log_entry\<close> raises during an emission, the
  exception is the result of \<open>button_action\<close>, of the raw-event callback and of both
  timer functions, unchanged; \<open>hass.bus.fire\<close> has been called exactly once, so nothing
  is retried, and \<open>logbook.log_entry\<close> at most once.
\<close>

theorem sink_failure_propagates:
  "raises (FireFails e) = Some e \<and> raises (LogFails e) = Some e \<and>
   fst (button_action L self a k w) = raises k \<and>
   fst (button_callback L self PRESSED k w) = raises k \<and>
   fst (button_callback L self RELEASED k w) = raises k \<and>
   fst (long_press_func L self k w) = raises k \<and>
   fst (super_long_press_func L self k w) = raises k \<and>
   fst (call L f k w) = raises k \<and>
   length (bus (snd (button_action L self a k w))) = Suc (length (bus w)) \<and>
   length (bus (snd (button_callback L self PRESSED k w))) = Suc (length (bus w)) \<and>
   length (bus (snd (button_callback L self RELEASED k w))) = Suc (length (bus w)) \<and>
   length (bus (snd (call L f k w))) = Suc (length (bus w)) \<and>
   length (logbook (snd (button_action L self a k w))) \<le> Suc (length (logbook w))"
  by (cases k; cases f)
    (simp_all add: button_callback_def long_press_func_def super_long_press_func_def call_def
      button_action_eq raises_def prim_defs Let_def split: option.splits)

subsection \<open>C9\<close>

text \<open>
  C9. Take any schedule in which any number of buttons act, and any button. The time, the
  slot and the timers of that button at the end are those of the schedule in which only
  that button acts (its raw events, the steps of its timer threads, and the passing of
  time); and the calls of the bus made by the steps of that button during the interleaved
  schedule are exactly the calls of the bus when the button runs alone.
\<close>

theorem button_isolation:
  "view ob (run L as world0) = view ob (run L (filter (concerns ob) as) world0) \<and>
   emitted L (concerns ob) as world0 = bus (run L (filter (concerns ob) as) world0)"
proof -
  have "view ob (run L as world0) = view ob (run L (filter (concerns ob) as) world0) \<and>
      emitted L (concerns ob) as world0 =
        emitted L (concerns ob) (filter (concerns ob) as) world0"
    using owned_world0 owned_world0 by (rule isolation_run) simp
  moreover have "bus (run L (filter (concerns ob) as) world0) =
      bus world0 @ emitted L (concerns ob) (filter (concerns ob) as) world0"
    by (rule emitted_all) (simp add: list_all_iff)
  ultimately show ?thesis by (simp add: world0_def)
qed

theorem button_isolation_witness:
  "map action_of (emitted example_lib (concerns (oid toggle_button))
     [Raw toggle_button PRESSED Healthy, Raw raise_button PRESSED Healthy,
      Advance (1 / 2), Tick (oid raise_button, 0) Healthy, Tick (oid toggle_button, 0) Healthy,
      Raw raise_button RELEASED Healthy, Tick (oid toggle_button, 0) Healthy] world0)
     = [''pressed'', ''long_pressed'']"
proof -
  let ?as = "[Raw toggle_button PRESSED Healthy, Raw raise_button PRESSED Healthy,
      Advance (1 / 2), Tick (oid raise_button, 0) Healthy, Tick (oid toggle_button, 0) Healthy,
      Raw raise_button RELEASED Healthy, Tick (oid toggle_button, 0) Healthy]"
  have f: "filter (concerns (oid toggle_button)) ?as =
      [Raw toggle_button PRESSED Healthy, Advance (1 / 2),
       Tick (oid toggle_button, 0) Healthy, Tick (oid toggle_button, 0) Healthy]"
    by (simp add: concerns_def toggle_button_eq raise_button_eq)
  have alone: "actions (run example_lib [Raw toggle_button PRESSED Healthy, Advance (1 / 2),
       Tick (oid toggle_button, 0) Healthy, Tick (oid toggle_button, 0) Healthy] world0)
     = [''pressed'', ''long_pressed'']"
    by (simp add: solo_world0 [of example_lib toggle_button] solo_steps)
  show ?thesis
    using button_isolation [of "oid toggle_button" example_lib ?as] alone
    unfolding f by (simp add: actions_def)
qed

subsection \<open>C10\<close>

text \<open>
  C10. When the sink raises while \<open>pressed\<close> is emitted in a PRESS callback, the
  exception leaves the callback, the slot of the button is empty, and no timer has been
  created: the heap is the one left by the cancellation at the start of the callback.
\<close>

theorem failed_press_arms_no_timer:
  "fst (button_callback L self PRESSED (FireFails e) w) = Some e \<and>
   timer (snd (button_callback L self PRESSED (FireFails e) w)) (oid self) = None \<and>
   heap (snd (button_callback L self PRESSED (FireFails e) w)) =
     (case timer w (oid self) of None \<Rightarrow> heap w | Some r \<Rightarrow> heap (cancel r w)) \<and>
   fst (button_callback L self PRESSED (LogFails e) w) = Some e \<and>
   timer (snd (button_callback L self PRESSED (LogFails e) w)) (oid self) = None \<and>
   heap (snd (button_callback L self PRESSED (LogFails e) w)) =
     (case timer w (oid self) of None \<Rightarrow> heap w | Some r \<Rightarrow> heap (cancel r w)) \<and>
   (\<forall>ob. length (heap (cancel r w) ob) = length (heap w ob))"
  by (simp add: button_callback_def button_action_eq raises_def prim_defs Let_def
      split: option.splits)


end
